theory Spec2Isabelle
  imports
    Main
    "HOL-Library.Word"
    "HOL-Library.Multiset"
    "HOL-Library.List_Lexorder"
    "HOL-Library.Char_ord"
    "HOL-Library.Product_Lexorder"
    "HOL-Library.Sublist"
begin

section \<open>The output tree of query/outputnode.go\<close>

text \<open>
  A shallow embedding of \<^verbatim>\<open>src/query/outputnode.go\<close>: the output node
  (\<^verbatim>\<open>fastJsonNode\<close>) and its builder methods, the value codec
  \<^verbatim>\<open>valToBytes\<close>, the encoder, \<^verbatim>\<open>merge\<close> and
  \<^verbatim>\<open>normalize\<close>, the traversal \<^verbatim>\<open>preTraverse\<close> and the
  assembly in \<^verbatim>\<open>processNodeUids\<close> and \<^verbatim>\<open>toFastJSON\<close>.

  Go strings and byte slices are \<open>string\<close> (a list of 8-bit characters), a
  \<^verbatim>\<open>uint64\<close> is a \<open>64 word\<close>, and Go's \<^verbatim>\<open>int\<close> is
  \<open>int\<close> (every \<^verbatim>\<open>int\<close> of the file is a length, an index or a sum of
  lengths that is compared with the limit before it grows further). A Go
  \<^verbatim>\<open>error\<close> is observed only through its message, so it is its message.
\<close>

type_synonym bytes = string
type_synonym uid = "64 word"
type_synonym float64 = "64 word"

datatype error = Error (msg: string)

subsection \<open>fastJsonNode\<close>

text \<open>
  \<^verbatim>\<open>type fastJsonNode struct { attr; order; isChild; scalarVal; attrs; list }\<close>.
  The Go tree holds pointers; the nodes the file builds are owned by one parent, so the
  tree is a value here and a method that mutates its receiver returns the new receiver.
\<close>

datatype fastJsonNode = FastJsonNode
  (attr: string) (order: int) (isChild: bool) (scalarVal: bytes)
  (attrs: "fastJsonNode list") (list: bool)

definition set_attr :: "string \<Rightarrow> fastJsonNode \<Rightarrow> fastJsonNode" where
  "set_attr a n = FastJsonNode a (order n) (isChild n) (scalarVal n) (attrs n) (list n)"

definition set_order :: "int \<Rightarrow> fastJsonNode \<Rightarrow> fastJsonNode" where
  "set_order i n = FastJsonNode (attr n) i (isChild n) (scalarVal n) (attrs n) (list n)"

definition set_isChild :: "bool \<Rightarrow> fastJsonNode \<Rightarrow> fastJsonNode" where
  "set_isChild b n = FastJsonNode (attr n) (order n) b (scalarVal n) (attrs n) (list n)"

definition set_attrs :: "fastJsonNode list \<Rightarrow> fastJsonNode \<Rightarrow> fastJsonNode" where
  "set_attrs as n = FastJsonNode (attr n) (order n) (isChild n) (scalarVal n) as (list n)"

text \<open>\<^verbatim>\<open>makeScalarNode(attr, isChild, val, list)\<close>; \<^verbatim>\<open>order\<close> is Go's zero value.\<close>

definition makeScalarNode :: "string \<Rightarrow> bool \<Rightarrow> bytes \<Rightarrow> bool \<Rightarrow> fastJsonNode" where
  "makeScalarNode a c val l = FastJsonNode a 0 c val [] l"

text \<open>\<^verbatim>\<open>New(attr)\<close> is \<^verbatim>\<open>&fastJsonNode{attr: attr, isChild: false}\<close>, and
  \<open>emptyNode\<close> is the literal \<^verbatim>\<open>&fastJsonNode{}\<close>.\<close>

definition New :: "string \<Rightarrow> fastJsonNode" where
  "New a = FastJsonNode a 0 False [] [] False"

definition emptyNode :: fastJsonNode where
  "emptyNode = FastJsonNode [] 0 False [] [] False"

definition IsEmpty :: "fastJsonNode \<Rightarrow> bool" where
  "IsEmpty fj = (length (attrs fj) = 0)"

text \<open>\<^verbatim>\<open>AddListChild\<close>: the child is renamed, marked structural and appended.\<close>

definition AddListChild :: "fastJsonNode \<Rightarrow> string \<Rightarrow> fastJsonNode \<Rightarrow> fastJsonNode" where
  "AddListChild fj a child = set_attrs (attrs fj @ [set_isChild True (set_attr a child)]) fj"

text \<open>
  \<^verbatim>\<open>AddMapChild\<close>: the first child named \<open>a\<close>, when there is one, receives the
  new node's children (line 111); otherwise the new node is appended with
  \<^verbatim>\<open>isChild = false\<close>. \<open>mergeIntoFirst\<close> is the assignment through the pointer
  \<^verbatim>\<open>childNode\<close> that the search loop of lines 101-106 found.
\<close>

fun mergeIntoFirst :: "string \<Rightarrow> fastJsonNode list \<Rightarrow> fastJsonNode list \<Rightarrow> fastJsonNode list" where
  "mergeIntoFirst a extra [] = []"
| "mergeIntoFirst a extra (c # cs) =
     (if attr c = a then set_attrs (attrs c @ extra) c # cs
      else c # mergeIntoFirst a extra cs)"

definition AddMapChild :: "fastJsonNode \<Rightarrow> string \<Rightarrow> fastJsonNode \<Rightarrow> bool \<Rightarrow> fastJsonNode" where
  "AddMapChild fj a val isRoot =
     (if \<exists>c \<in> set (attrs fj). attr c = a
      then set_attrs (mergeIntoFirst a (attrs val) (attrs fj)) fj
      else set_attrs (attrs fj @ [set_isChild False (set_attr a val)]) fj)"

subsection \<open>Formatting integers\<close>

text \<open>\<^verbatim>\<open>fmt.Sprintf\<close> with \<^verbatim>\<open>%d\<close> on an integer and with
  \<^verbatim>\<open>%#x\<close> on a \<^verbatim>\<open>uint64\<close>.\<close>

definition digit :: "nat \<Rightarrow> char" where
  "digit d = (''0123456789abcdef'' ! d)"

fun showNat :: "nat \<Rightarrow> nat \<Rightarrow> string" where
  "showNat b n = (if b < 2 \<or> n < b then [digit n] else showNat b (n div b) @ [digit (n mod b)])"

declare showNat.simps [simp del]

definition fmt_d :: "int \<Rightarrow> string" where
  "fmt_d i = (if i < 0 then CHR ''-'' # showNat 10 (nat (- i)) else showNat 10 (nat i))"

definition fmt_hex :: "uid \<Rightarrow> string" where
  "fmt_hex u = ''0x'' @ showNat 16 (unat u)"

definition quoted :: "string \<Rightarrow> string" where
  "quoted s = CHR 0x22 # s @ [CHR 0x22]"

text \<open>\<^verbatim>\<open>SetUID\<close>: for the name \<^verbatim>\<open>"uid"\<close> an attached field of that name ends the
  call (lines 131-137); otherwise the uid is appended as a scalar field.\<close>

definition SetUID :: "fastJsonNode \<Rightarrow> uid \<Rightarrow> string \<Rightarrow> fastJsonNode" where
  "SetUID fj u a =
     (if a = ''uid'' \<and> (\<exists>x \<in> set (attrs fj). attr x = a) then fj
      else set_attrs (attrs fj @ [makeScalarNode a False (quoted (fmt_hex u)) False]) fj)"

subsection \<open>The value codec\<close>

text \<open>
  Modelled from the spec: the type identifiers of package \<^verbatim>\<open>types\<close>, which is not
  under src/ (text, binary, integers, floating point, booleans, timestamps, geometry,
  identifiers, passwords), and one more, \<open>UndefinedID\<close>, for every identifier the
  \<^verbatim>\<open>switch\<close> of \<^verbatim>\<open>valToBytes\<close> does not list.
\<close>

datatype TypeID =
  DefaultID | BinaryID | IntID | FloatID | BoolID | DateTimeID | GeoID | UidID
  | PasswordID | StringID | UndefinedID

text \<open>
  \<^verbatim>\<open>Val.Value\<close> is an \<^verbatim>\<open>interface{}\<close>: a value together with its dynamic Go
  type. A \<^verbatim>\<open>time.Time\<close> and a \<^verbatim>\<open>geom.T\<close> are opaque here (the library
  functions of \<open>extern\<close> below read them), a \<^verbatim>\<open>float64\<close> is its bit pattern.
\<close>

datatype Time = Time int
datatype Geom = Geom bytes

datatype Value =
  VNil | VString string | VBytes bytes | VInt64 int | VFloat64 float64 | VBool bool
  | VTime Time | VGeom Geom | VUint64 uid

record Val =
  Tid :: TypeID
  Value :: Value

text \<open>
  The library functions \<^verbatim>\<open>valToBytes\<close> calls are not part of the repository; they
  are parameters: \<^verbatim>\<open>json.Marshal\<close>, \<^verbatim>\<open>fmt.Sprintf\<close> with one operand (the
  format string is passed on as written), \<^verbatim>\<open>time.Time.IsZero\<close>,
  \<^verbatim>\<open>time.Time.MarshalJSON\<close> and \<^verbatim>\<open>geojson.Marshal\<close>.
\<close>

record codec =
  json_Marshal :: "Value \<Rightarrow> error + bytes"
  fmt_Sprintf :: "string \<Rightarrow> Value \<Rightarrow> bytes"
  time_IsZero :: "Time \<Rightarrow> bool"
  time_MarshalJSON :: "Time \<Rightarrow> error + bytes"
  geojson_Marshal :: "Geom \<Rightarrow> error + bytes"

text \<open>
  \<^verbatim>\<open>valToBytes\<close>. The result is \<open>None\<close> where a type assertion of the source
  panics (\<^verbatim>\<open>v.Value.(bool)\<close> on a value that is no \<^verbatim>\<open>bool\<close>), and
  otherwise the pair the function returns: \<open>Inl\<close> the error, \<open>Inr\<close> the bytes.
\<close>

definition unsupported :: error where
  "unsupported = Error ''Unsupported types.Val.Tid''"

fun valToBytes :: "codec \<Rightarrow> Val \<Rightarrow> (error + bytes) option" where
  "valToBytes cd v =
     (case Tid v of
        StringID \<Rightarrow> Some (json_Marshal cd (Value v))
      | DefaultID \<Rightarrow> Some (json_Marshal cd (Value v))
      | BinaryID \<Rightarrow> Some (Inr (fmt_Sprintf cd ''%q'' (Value v)))
      | IntID \<Rightarrow> Some (Inr (fmt_Sprintf cd ''%d'' (Value v)))
      | FloatID \<Rightarrow> Some (Inr (fmt_Sprintf cd ''%f'' (Value v)))
      | BoolID \<Rightarrow>
          (case Value v of
             VBool b \<Rightarrow> Some (Inr (if b then ''true'' else ''false''))
           | _ \<Rightarrow> None)
      | DateTimeID \<Rightarrow>
          (case Value v of
             VTime t \<Rightarrow>
               if time_IsZero cd t then Some (Inr ''\"\"'') else Some (time_MarshalJSON cd t)
           | _ \<Rightarrow> None)
      | GeoID \<Rightarrow>
          (case Value v of
             VGeom g \<Rightarrow> Some (geojson_Marshal cd g)
           | _ \<Rightarrow> None)
      | UidID \<Rightarrow> Some (Inr (fmt_Sprintf cd ''\"%#x\"'' (Value v)))
      | PasswordID \<Rightarrow>
          (case Value v of
             VString s \<Rightarrow> Some (Inr (fmt_Sprintf cd ''%q'' (VString s)))
           | _ \<Rightarrow> None)
      | UndefinedID \<Rightarrow> Some (Inl unsupported))"

text \<open>
  \<^verbatim>\<open>AddListValue\<close> appends a scalar node when \<^verbatim>\<open>valToBytes\<close> returned no
  error and does nothing when it returned one; \<open>None\<close> is the panic of
  \<^verbatim>\<open>valToBytes\<close> passing through. \<^verbatim>\<open>AddValue\<close> is
  \<^verbatim>\<open>AddListValue\<close> with \<^verbatim>\<open>list = false\<close>.
\<close>

definition AddListValue ::
  "codec \<Rightarrow> fastJsonNode \<Rightarrow> string \<Rightarrow> Val \<Rightarrow> bool \<Rightarrow> fastJsonNode option" where
  "AddListValue cd fj a v l =
     (case valToBytes cd v of
        None \<Rightarrow> None
      | Some (Inr bs) \<Rightarrow> Some (set_attrs (attrs fj @ [makeScalarNode a False bs l]) fj)
      | Some (Inl err) \<Rightarrow> Some fj)"

definition AddValue :: "codec \<Rightarrow> fastJsonNode \<Rightarrow> string \<Rightarrow> Val \<Rightarrow> fastJsonNode option" where
  "AddValue cd fj a v = AddListValue cd fj a v False"

subsection \<open>The encoder\<close>

text \<open>\<^verbatim>\<open>writeKey\<close>: the bytes it appends to the buffer.\<close>

definition writeKey :: "fastJsonNode \<Rightarrow> bytes" where
  "writeKey fj = CHR 0x22 # attr fj @ [CHR 0x22, CHR '':'']"

text \<open>
  The loop of \<^verbatim>\<open>encode\<close> (lines 218-267). \<open>cur\<close> is the node in hand, \<open>rest\<close>
  the children from index \<open>i\<close> on, \<open>cnt\<close> and \<open>inArray\<close> the loop's variables and
  \<open>out\<close> the buffer; \<open>enc\<close> is the recursive call \<^verbatim>\<open>cur.encode(out)\<close>. An empty
  \<open>rest\<close> is the iteration that sets \<^verbatim>\<open>last\<close> and breaks.
\<close>

fun encodeLoop ::
  "(fastJsonNode \<Rightarrow> bytes \<Rightarrow> bytes) \<Rightarrow> fastJsonNode \<Rightarrow> fastJsonNode list \<Rightarrow> int \<Rightarrow> bool
     \<Rightarrow> bytes \<Rightarrow> bytes" where
  "encodeLoop enc cur [] cnt inArray out =
     (let out1 = (if cnt = 1 then out @ writeKey cur else out);
          out2 = (if (isChild cur \<or> list cur) \<and> \<not> inArray then out1 @ ''['' else out1);
          out3 = enc cur out2
      in if cnt \<noteq> 1 \<or> (isChild cur \<or> list cur) then out3 @ '']'' else out3)"
| "encodeLoop enc cur (next # rest) cnt inArray out =
     (if attr cur = attr next then
        (let out1 = (if cnt = 1 then out @ writeKey cur @ ''['' else out);
             inArray1 = (if cnt = 1 then True else inArray);
             out2 = enc cur out1
         in encodeLoop enc next rest (cnt + 1) inArray1 (out2 @ '',''))
      else
        (let out1 = (if cnt = 1
                     then (if isChild cur \<or> list cur then out @ writeKey cur @ ''[''
                           else out @ writeKey cur)
                     else out);
             inArray1 = (if cnt = 1 \<and> (isChild cur \<or> list cur) then True else inArray);
             out2 = enc cur out1;
             closes = (cnt \<noteq> 1 \<or> (isChild cur \<or> list cur));
             out3 = (if closes then out2 @ '']'' else out2);
             inArray2 = (if closes then False else inArray1)
         in encodeLoop enc next rest 1 inArray2 (out3 @ '','')))"

lemma encodeLoop_ext:
  "(\<And>x o'. x \<in> set (cur # rest) \<Longrightarrow> enc x o' = enc' x o')
   \<Longrightarrow> encodeLoop enc cur rest cnt inArray out = encodeLoop enc' cur rest cnt inArray out"
proof (induction rest arbitrary: cur cnt inArray out)
  case Nil
  then show ?case by (simp add: Let_def)
next
  case (Cons nxt rest)
  have e: "enc cur o' = enc' cur o'" for o'
    using Cons.prems by simp
  have r: "encodeLoop enc nxt rest c ia o' = encodeLoop enc' nxt rest c ia o'" for c ia o'
    by (rule Cons.IH) (use Cons.prems in auto)
  show ?case
    by (simp add: Let_def e r)
qed

lemma encodeLoop_cong [fundef_cong]:
  assumes "cur = cur'" "rest = rest'" "cnt = cnt'" "inArray = inArray'" "out = out'"
    and "\<And>x o'. x \<in> set (cur' # rest') \<Longrightarrow> enc x o' = enc' x o'"
  shows "encodeLoop enc cur rest cnt inArray out = encodeLoop enc' cur' rest' cnt' inArray' out'"
  using assms encodeLoop_ext [of cur' rest' enc enc'] by simp

text \<open>
  \<^verbatim>\<open>encode\<close> has two effects: the bytes it appends to the buffer, which is this
  function, and the \<^verbatim>\<open>order\<close> fields it assigns (lines 206-208), which is
  \<open>encode_orders\<close> below. The bytes never read an \<^verbatim>\<open>order\<close> field.
\<close>

fun encode :: "fastJsonNode \<Rightarrow> bytes \<Rightarrow> bytes" where
  "encode (FastJsonNode a ord c sv as l) out =
     (case as of
        [] \<Rightarrow> out @ sv
      | cur # rest \<Rightarrow> encodeLoop encode cur rest 1 False (out @ ''{'') @ ''}'')"

text \<open>The tree after \<^verbatim>\<open>encode\<close> returned: every child carries its index as
  \<^verbatim>\<open>order\<close>, at every depth the recursion reaches (which is every depth).\<close>

fun reorder :: "int \<Rightarrow> fastJsonNode list \<Rightarrow> fastJsonNode list" where
  "reorder i [] = []"
| "reorder i (a # as) = set_order i a # reorder (i + 1) as"

fun encode_orders :: "fastJsonNode \<Rightarrow> fastJsonNode" where
  "encode_orders (FastJsonNode a ord c sv as l) =
     FastJsonNode a ord c sv (reorder 0 (map encode_orders as)) l"

text \<open>\<open>forgetOrder\<close> resets every \<^verbatim>\<open>order\<close> field of a tree; it is used to state
  that the encoder does not read them.\<close>

fun forgetOrder :: "fastJsonNode \<Rightarrow> fastJsonNode" where
  "forgetOrder (FastJsonNode a ord c sv as l) = FastJsonNode a 0 c sv (map forgetOrder as) l"

text \<open>Lines 519-525 of \<^verbatim>\<open>toFastJSON\<close>: the bytes returned for the root node
  \<^verbatim>\<open>n\<close>.\<close>

definition rootBytes :: "fastJsonNode \<Rightarrow> bytes" where
  "rootBytes n = (if length (attrs n) = 0 then ''{}'' else encode n [])"

subsection \<open>merge\<close>

text \<open>
  \<^verbatim>\<open>merge\<close>, with \<^verbatim>\<open>x.Config.NormalizeNodeLimit\<close> as the parameter \<open>lim\<close>.
  \<open>mergeInner\<close> is the loop over \<^verbatim>\<open>child\<close> for one parent row and
  \<open>mergeOuter\<close> the loop over \<^verbatim>\<open>parent\<close>; \<open>cnt\<close> and \<open>mergedList\<close>
  are carried through both, and the \<^verbatim>\<open>return nil, errors.Errorf(...)\<close> inside
  leaves both loops.
\<close>

type_synonym row = "fastJsonNode list"

definition tooManyResults :: error where
  "tooManyResults = Error ''Couldn't evaluate @normalize directive - too many results''"

fun mergeInner :: "int \<Rightarrow> row \<Rightarrow> row list \<Rightarrow> int \<Rightarrow> row list \<Rightarrow> error + (int \<times> row list)" where
  "mergeInner lim pa [] cnt mergedList = Inr (cnt, mergedList)"
| "mergeInner lim pa (ca # cs) cnt mergedList =
     (let cnt' = cnt + (int (length pa) + int (length ca))
      in if cnt' > lim then Inl tooManyResults
         else mergeInner lim pa cs cnt' (mergedList @ [pa @ ca]))"

fun mergeOuter :: "int \<Rightarrow> row list \<Rightarrow> row list \<Rightarrow> int \<Rightarrow> row list \<Rightarrow> error + row list" where
  "mergeOuter lim [] child cnt mergedList = Inr mergedList"
| "mergeOuter lim (pa # ps) child cnt mergedList =
     (case mergeInner lim pa child cnt mergedList of
        Inl e \<Rightarrow> Inl e
      | Inr (cnt', mergedList') \<Rightarrow> mergeOuter lim ps child cnt' mergedList')"

definition merge :: "int \<Rightarrow> row list \<Rightarrow> row list \<Rightarrow> error + row list" where
  "merge lim parent child =
     (if length parent = 0 then Inr child else mergeOuter lim parent child 0 [])"

subsection \<open>normalize\<close>

text \<open>
  \<^verbatim>\<open>nodeSlice.Less\<close>, with \<^verbatim>\<open>strings.Compare\<close> as the lexicographic order of the
  bytes.
\<close>

definition strings_Compare :: "string \<Rightarrow> string \<Rightarrow> int" where
  "strings_Compare a b = (if a = b then 0 else if a < b then - 1 else 1)"

definition Less :: "fastJsonNode \<Rightarrow> fastJsonNode \<Rightarrow> bool" where
  "Less a b =
     (let cmp = strings_Compare (attr a) (attr b)
      in if cmp = 0 then order a < order b else cmp < 0)"

text \<open>
  What \<^verbatim>\<open>sort.Sort\<close> guarantees of its result on a \<^verbatim>\<open>nodeSlice\<close>: the same
  nodes, and no node \<^verbatim>\<open>Less\<close> than one before it. The order of nodes that are
  equal under \<^verbatim>\<open>Less\<close> is left open, as the library leaves it.
\<close>

definition sorts :: "(row \<Rightarrow> row) \<Rightarrow> bool" where
  "sorts srt = (\<forall>xs. mset (srt xs) = mset xs \<and> sorted_wrt (\<lambda>a b. \<not> Less b a) (srt xs))"

text \<open>
  The scan of lines 348-357 over one sorted row: \<open>i\<close> is the index of the head of the
  list, and the pair is \<^verbatim>\<open>(first, last)\<close>, which starts as \<open>(-1, 0)\<close>.
\<close>

fun uidScan :: "row \<Rightarrow> int \<Rightarrow> int \<times> int \<Rightarrow> int \<times> int" where
  "uidScan [] i (firstIdx, lastIdx) = (firstIdx, lastIdx)"
| "uidScan (a # as) i (firstIdx, lastIdx) =
     (if attr a = ''uid''
      then uidScan as (i + 1) (if firstIdx = - 1 then i else firstIdx, i)
      else uidScan as (i + 1) (firstIdx, lastIdx))"

text \<open>Lines 358-364: the row that replaces \<^verbatim>\<open>parentSlice[i]\<close>; \<open>sl\<close> is the sorted
  \<^verbatim>\<open>slice\<close>.\<close>

definition dedupUid :: "row \<Rightarrow> row" where
  "dedupUid sl =
     (case uidScan sl 0 (- 1, 0) of
        (firstIdx, lastIdx) \<Rightarrow>
          if firstIdx \<noteq> - 1 \<and> firstIdx \<noteq> lastIdx
          then (if firstIdx = 0 then drop (nat lastIdx) sl
                else take (nat firstIdx) sl @ drop (nat lastIdx) sl)
          else sl)"

text \<open>
  The inner loop of lines 330-337: from the head of \<open>xs\<close> on, every node named \<open>name\<close>
  is normalized (\<open>norm\<close> is the recursive call) and its rows appended to
  \<^verbatim>\<open>childSlice\<close>; the result is \<^verbatim>\<open>childSlice\<close> and the nodes from index
  \<^verbatim>\<open>ci\<close> on.
\<close>

fun normGroup ::
  "(fastJsonNode \<Rightarrow> error + row list) \<Rightarrow> string \<Rightarrow> fastJsonNode list \<Rightarrow> row list
     \<Rightarrow> error + (row list \<times> fastJsonNode list)" where
  "normGroup norm name [] childSlice = Inr (childSlice, [])"
| "normGroup norm name (x # xs) childSlice =
     (if name = attr x then
        (case norm x of
           Inl err \<Rightarrow> Inl err
         | Inr normalized \<Rightarrow> normGroup norm name xs (childSlice @ normalized))
      else Inr (childSlice, x # xs))"

lemma normGroup_length:
  "normGroup norm name xs cs = Inr (cs', rest) \<Longrightarrow> length rest \<le> length xs"
  by (induction xs arbitrary: cs) (fastforce split: if_splits sum.splits)+

lemma normGroup_head_length:
  "normGroup norm (attr c) (c # xs) cs = Inr (cs', rest) \<Longrightarrow> length rest < Suc (length xs)"
  by (fastforce split: sum.splits dest: normGroup_length)

text \<open>
  The loop of lines 323-344 over \<^verbatim>\<open>fj.attrs\<close> from index \<^verbatim>\<open>ci\<close> on, with
  \<^verbatim>\<open>parentSlice\<close> carried along.
\<close>

function normGroups ::
  "(fastJsonNode \<Rightarrow> error + row list) \<Rightarrow> int \<Rightarrow> fastJsonNode list \<Rightarrow> row list
     \<Rightarrow> error + row list" where
  "normGroups norm lim [] parentSlice = Inr parentSlice"
| "normGroups norm lim (childNode # xs) parentSlice =
     (if \<not> isChild childNode then normGroups norm lim xs parentSlice
      else
        (case normGroup norm (attr childNode) (childNode # xs) [] of
           Inl err \<Rightarrow> Inl err
         | Inr (childSlice, rest) \<Rightarrow>
             (case merge lim parentSlice childSlice of
                Inl err \<Rightarrow> Inl err
              | Inr parentSlice' \<Rightarrow> normGroups norm lim rest parentSlice')))"
  by pat_completeness auto
termination
  by (relation "measure (\<lambda>(norm, lim, xs, ps). length xs)")
    (auto simp del: normGroup.simps dest: normGroup_head_length)

lemma normGroup_ext:
  "(\<And>x. x \<in> set xs \<Longrightarrow> norm x = norm' x)
   \<Longrightarrow> normGroup norm name xs cs = normGroup norm' name xs cs"
  by (induction xs arbitrary: cs) (auto split: sum.splits)

lemma normGroup_rest_subset:
  "normGroup norm name xs cs = Inr (cs', rest) \<Longrightarrow> set rest \<subseteq> set xs"
  by (induction xs arbitrary: cs) (auto split: if_splits sum.splits)

lemma normGroups_ext:
  "(\<And>x. x \<in> set xs \<Longrightarrow> norm x = norm' x)
   \<Longrightarrow> normGroups norm lim xs ps = normGroups norm' lim xs ps"
proof (induction norm lim xs ps rule: normGroups.induct)
  case (1 norm lim parentSlice)
  then show ?case by simp
next
  case (2 norm lim childNode xs parentSlice)
  show ?case
  proof (cases "isChild childNode")
    case False
    with 2 show ?thesis by simp
  next
    case True
    have g: "normGroup norm (attr childNode) (childNode # xs) []
        = normGroup norm' (attr childNode) (childNode # xs) []"
      by (rule normGroup_ext) (use "2.prems" in auto)
    show ?thesis
    proof (cases "normGroup norm (attr childNode) (childNode # xs) []")
      case (Inl err)
      with True g show ?thesis by simp
    next
      case (Inr pr)
      obtain childSlice rest where pr: "pr = (childSlice, rest)"
        by (cases pr)
      have sub: "set rest \<subseteq> set (childNode # xs)"
        using Inr pr normGroup_rest_subset by blast
      show ?thesis
      proof (cases "merge lim parentSlice childSlice")
        case (Inl err)
        with True g Inr pr show ?thesis by simp
      next
        case (Inr parentSlice')
        have "normGroups norm lim rest parentSlice' = normGroups norm' lim rest parentSlice'"
          using "2.IH"(2) [OF _ \<open>normGroup norm (attr childNode) (childNode # xs) [] = Inr pr\<close>
              pr [symmetric] Inr] True sub "2.prems"
          by auto
        with True g \<open>normGroup norm (attr childNode) (childNode # xs) [] = Inr pr\<close> pr Inr
        show ?thesis by simp
      qed
    qed
  qed
qed

lemma normGroups_cong [fundef_cong]:
  assumes "lim = lim'" "xs = xs'" "ps = ps'"
    and "\<And>x. x \<in> set xs' \<Longrightarrow> norm x = norm' x"
  shows "normGroups norm lim xs ps = normGroups norm' lim' xs' ps'"
  using assms normGroups_ext [of xs' norm norm'] by simp

text \<open>
  \<^verbatim>\<open>normalize\<close>. \<open>srt\<close> is \<^verbatim>\<open>sort.Sort\<close> on a \<^verbatim>\<open>nodeSlice\<close>, a library
  function and so a parameter; \<open>lim\<close> is the limit \<^verbatim>\<open>merge\<close> reads. The count
  of lines 299-304 and the collection of lines 315-320 are the two filters. Every row of
  \<^verbatim>\<open>parentSlice\<close> that reaches line 345 was allocated by \<^verbatim>\<open>merge\<close>
  (\<open>normalize_rows_nonempty\<close> below), so the sort in place touches no other slice.
\<close>

fun normalize_fj ::
  "(row \<Rightarrow> row) \<Rightarrow> int \<Rightarrow> fastJsonNode \<Rightarrow> error + row list" where
  "normalize_fj srt lim (FastJsonNode a ord c sv as l) =
     (if length (filter isChild as) = 0 then Inr [as]
      else
        (case normGroups (normalize_fj srt lim) lim as [filter (\<lambda>x. \<not> isChild x) as] of
           Inl err \<Rightarrow> Inl err
         | Inr parentSlice \<Rightarrow> Inr (map (\<lambda>sl. dedupUid (srt sl)) parentSlice)))"

section \<open>The subgraph and its traversal\<close>

subsection \<open>SubGraph\<close>

text \<open>
  The types \<^verbatim>\<open>SubGraph\<close>, \<^verbatim>\<open>params\<close>, \<^verbatim>\<open>groupResults\<close> and the protocol
  buffer messages are declared in files that are not under src/; they are modelled
  here with the fields \<^verbatim>\<open>outputnode.go\<close> reads, under the names it reads them by.
  A message that holds one repeated field is the list of that field
  (\<^verbatim>\<open>pb.List.Uids\<close>, \<^verbatim>\<open>pb.ValueList.Values\<close>, \<^verbatim>\<open>pb.FacetsList.FacetsList\<close>,
  \<^verbatim>\<open>pb.Facets.Facets\<close>, \<^verbatim>\<open>pb.LangList.Lang\<close>, \<^verbatim>\<open>groupResults.group\<close>); a
  pointer the file compares with \<^verbatim>\<open>nil\<close> is an \<open>option\<close>, every other pointer
  is taken to point to a message.
\<close>

datatype Facet = Facet (Facet_Key: string) (Facet_Alias: string) (Facet_Value: bytes)

datatype TaskValue = TaskValue (TaskValue_Val: bytes) (TaskValue_ValType: TypeID)

datatype groupPair = GroupPair (pair_key: Val) (pair_attr: string)

datatype groupResult = GroupResult (keys: "groupPair list") (aggregates: "groupPair list")

type_synonym groupResults = "groupResult list"

datatype FacetParams = FacetParams

text \<open>
  \<^verbatim>\<open>params\<close>. \<^verbatim>\<open>NeedsVar\<close> holds the \<^verbatim>\<open>Name\<close> of each variable, the only
  field read. The field \<^verbatim>\<open>IsEmpty\<close> is \<open>Params_IsEmpty\<close>, the name \<open>IsEmpty\<close>
  being the node's method. The field \<^verbatim>\<open>parentIds\<close> is the only one the file assigns
  to; it lives in the store \<open>stacks\<close> below.
\<close>

record params =
  Alias :: string
  GetUid :: bool
  IgnoreReflex :: bool
  ignoreResult :: bool
  Expand :: string
  Normalize :: bool
  uidToVal :: "uid \<rightharpoonup> Val"
  isGroupBy :: bool
  Facet_params :: "FacetParams option"
  uidCount :: bool
  uidCountAlias :: string
  Langs :: "string list"
  expandAll :: bool
  shortest :: bool
  Params_IsEmpty :: bool
  NeedsVar :: "string list"
  Var :: string

text \<open>
  \<^verbatim>\<open>SubGraph\<close>. \<^verbatim>\<open>uidMatrix\<close> is \<open>None\<close> for the \<^verbatim>\<open>nil\<close> slice, which
  \<^verbatim>\<open>processNodeUids\<close> tells from an empty one. \<^verbatim>\<open>SrcFunc\<close> is the
  \<^verbatim>\<open>Name\<close> of the function when the pointer is not \<^verbatim>\<open>nil\<close>, and
  \<^verbatim>\<open>pathMeta\<close> the \<^verbatim>\<open>weight\<close>.
\<close>

datatype SubGraph = SubGraph
  (Params: params) (Attr: string) (Children: "SubGraph list")
  (uidMatrix: "uid list list option") (facetsMatrix: "Facet list list list")
  (SrcUIDs: "uid list") (DestUIDs: "uid list") (GroupbyRes: "groupResults list")
  (counts: "32 word list") (SrcFunc: "string option")
  (valueMatrix: "TaskValue list list") (LangTags: "string list list")
  (List: bool) (pathMeta: "float64 option")

text \<open>
  What the file takes from outside: the codec's library functions, the configured
  limit, the constant \<^verbatim>\<open>FacetDelimeter\<close>, \<^verbatim>\<open>sort.Sort\<close>,
  \<^verbatim>\<open>algo.IndexOf\<close>, \<^verbatim>\<open>facets.ValFor\<close>, \<^verbatim>\<open>convertWithBestEffort\<close>,
  \<^verbatim>\<open>task.ToBool\<close> and the method \<^verbatim>\<open>SubGraph.IsInternal\<close>.
\<close>

record extern =
  codec :: codec
  NormalizeNodeLimit :: int
  FacetDelimeter :: string
  sort_Sort :: "row \<Rightarrow> row"
  algo_IndexOf :: "uid list \<Rightarrow> uid \<Rightarrow> int"
  facets_ValFor :: "Facet \<Rightarrow> error + Val"
  convertWithBestEffort :: "TaskValue \<Rightarrow> string \<Rightarrow> error + Val"
  task_ToBool :: "TaskValue \<Rightarrow> bool"
  IsInternal :: "SubGraph \<Rightarrow> bool"

text \<open>
  The subgraphs form a tree, and \<^verbatim>\<open>preTraverse\<close> assigns to
  \<^verbatim>\<open>Params.parentIds\<close> of the subgraphs it visits. A subgraph is named by its path
  from the root (the indices into \<^verbatim>\<open>Children\<close>), and the store gives the
  \<^verbatim>\<open>parentIds\<close> of every subgraph. A Go slice assigned from another shares its
  array; every \<^verbatim>\<open>parentIds\<close> is read only below its own length, where no other
  subgraph writes while it is in use, so a slice is the list of its elements.
\<close>

type_synonym stacks = "nat list \<Rightarrow> uid list"

text \<open>An index expression \<^verbatim>\<open>xs[i]\<close>: \<open>None\<close> is the panic out of range.\<close>

definition index :: "'a list \<Rightarrow> int \<Rightarrow> 'a option" where
  "index xs i = (if 0 \<le> i \<and> i < int (length xs) then Some (xs ! nat i) else None)"

text \<open>The elements of a slice that may be \<^verbatim>\<open>nil\<close>: \<^verbatim>\<open>len\<close> of the
  \<^verbatim>\<open>nil\<close> slice is 0.\<close>

definition elems :: "'a list option \<Rightarrow> 'a list" where
  "elems m = (case m of None \<Rightarrow> [] | Some xs \<Rightarrow> xs)"

subsection \<open>Field names and the small writers\<close>

definition fieldName :: "SubGraph \<Rightarrow> string" where
  "fieldName sg = (if Alias (Params sg) \<noteq> [] then Alias (Params sg) else Attr sg)"

text \<open>\<^verbatim>\<open>addCount\<close>; \<open>cnt\<close> is the \<^verbatim>\<open>uint64\<close> argument \<^verbatim>\<open>count\<close>, converted
  to \<^verbatim>\<open>int64\<close> by the function.\<close>

definition addCount :: "codec \<Rightarrow> SubGraph \<Rightarrow> uid \<Rightarrow> fastJsonNode \<Rightarrow> fastJsonNode option" where
  "addCount cd pc cnt dst =
     (if Normalize (Params pc) \<and> Alias (Params pc) = [] then Some dst
      else AddValue cd dst
             (if Alias (Params pc) = [] then ''count('' @ Attr pc @ '')'' else Alias (Params pc))
             \<lparr>Tid = IntID, Value = VInt64 (sint cnt)\<rparr>)"

definition aggWithVarFieldName :: "SubGraph \<Rightarrow> string" where
  "aggWithVarFieldName pc =
     (if Alias (Params pc) \<noteq> [] then Alias (Params pc)
      else if length (NeedsVar (Params pc)) > 0 then
        (let fname = ''val('' @ hd (NeedsVar (Params pc)) @ '')''
         in case SrcFunc pc of
              Some name \<Rightarrow> name @ ''('' @ fname @ '')''
            | None \<Rightarrow> fname)
      else ''val('' @ Var (Params pc) @ '')'')"

definition addInternalNode :: "codec \<Rightarrow> SubGraph \<Rightarrow> uid \<Rightarrow> fastJsonNode \<Rightarrow> fastJsonNode option" where
  "addInternalNode cd pc u dst =
     (case uidToVal (Params pc) u of
        None \<Rightarrow> Some dst
      | Some sv \<Rightarrow>
          if Value sv = VNil then Some dst
          else AddValue cd dst (aggWithVarFieldName pc) sv)"

definition addCheckPwd ::
  "extern \<Rightarrow> SubGraph \<Rightarrow> TaskValue list \<Rightarrow> fastJsonNode \<Rightarrow> fastJsonNode option" where
  "addCheckPwd ext pc vals dst =
     AddValue (codec ext) dst
       (if Alias (Params pc) = [] then ''checkpwd('' @ Attr pc @ '')'' else Alias (Params pc))
       \<lparr>Tid = BoolID,
         Value = VBool (if length vals = 0 then False else task_ToBool ext (hd vals))\<rparr>"

fun alreadySeen :: "uid list \<Rightarrow> uid \<Rightarrow> bool" where
  "alreadySeen [] u = False"
| "alreadySeen (x # xs) u = (if x = u then True else alreadySeen xs u)"

definition facetName :: "extern \<Rightarrow> string \<Rightarrow> Facet \<Rightarrow> string" where
  "facetName ext fname f =
     (if Facet_Alias f \<noteq> [] then Facet_Alias f
      else fname @ FacetDelimeter ext @ Facet_Key f)"

fun strings_Join :: "string list \<Rightarrow> string \<Rightarrow> string" where
  "strings_Join [] sep = []"
| "strings_Join [x] sep = x"
| "strings_Join (x # y # ys) sep = x @ sep @ strings_Join (y # ys) sep"

subsection \<open>addGroupby, addCountAtRoot, addAggregations\<close>

text \<open>The two loops over \<^verbatim>\<open>grp.keys\<close> and \<^verbatim>\<open>grp.aggregates\<close>, and the loop over
  \<^verbatim>\<open>res.group\<close>; \<open>None\<close> is a panic of \<^verbatim>\<open>valToBytes\<close>.\<close>

fun addPairs :: "codec \<Rightarrow> fastJsonNode \<Rightarrow> groupPair list \<Rightarrow> fastJsonNode option" where
  "addPairs cd uc [] = Some uc"
| "addPairs cd uc (it # its) =
     (case AddValue cd uc (pair_attr it) (pair_key it) of
        None \<Rightarrow> None
      | Some uc' \<Rightarrow> addPairs cd uc' its)"

fun addGroups :: "codec \<Rightarrow> fastJsonNode \<Rightarrow> groupResult list \<Rightarrow> fastJsonNode option" where
  "addGroups cd g [] = Some g"
| "addGroups cd g (grp # grps) =
     (case addPairs cd (New ''@groupby'') (keys grp) of
        None \<Rightarrow> None
      | Some uc \<Rightarrow>
          (case addPairs cd uc (aggregates grp) of
             None \<Rightarrow> None
           | Some uc' \<Rightarrow> addGroups cd (AddListChild g ''@groupby'' uc') grps))"

definition addGroupby ::
  "codec \<Rightarrow> fastJsonNode \<Rightarrow> groupResults \<Rightarrow> string \<Rightarrow> fastJsonNode option" where
  "addGroupby cd fj res fname =
     (if length res = 0 then Some fj
      else
        (case addGroups cd (New fname) res of
           None \<Rightarrow> None
         | Some g \<Rightarrow> Some (AddListChild fj fname g)))"

definition addCountAtRoot :: "codec \<Rightarrow> fastJsonNode \<Rightarrow> SubGraph \<Rightarrow> fastJsonNode option" where
  "addCountAtRoot cd fj sg =
     (case AddValue cd (New (Alias (Params sg)))
             (if uidCountAlias (Params sg) = [] then ''count'' else uidCountAlias (Params sg))
             \<lparr>Tid = IntID, Value = VInt64 (int (length (DestUIDs sg)))\<rparr> of
        None \<Rightarrow> None
      | Some n1 \<Rightarrow> Some (AddListChild fj (Alias (Params sg)) n1))"

text \<open>The loop of \<^verbatim>\<open>addAggregations\<close> over \<^verbatim>\<open>sg.Children\<close>; the pair is the node
  and the error returned from inside the loop, if any.\<close>

fun aggregationLoop ::
  "codec \<Rightarrow> string \<Rightarrow> SubGraph list \<Rightarrow> fastJsonNode \<Rightarrow> (fastJsonNode \<times> error option) option" where
  "aggregationLoop cd alias [] fj = Some (fj, None)"
| "aggregationLoop cd alias (child # rest) fj =
     (let found = uidToVal (Params child) 0 in
      if found = None \<and> length (NeedsVar (Params child)) = 0
      then Some (fj, Some (Error ''Only aggregated variables allowed within empty block.''))
      else
        (let aggVal = (case found of
                         None \<Rightarrow> \<lparr>Tid = FloatID, Value = VFloat64 0\<rparr>
                       | Some v \<Rightarrow> v)
         in if Normalize (Params child) \<and> Alias (Params child) = []
            then aggregationLoop cd alias rest fj
            else
              (case AddValue cd (New (aggWithVarFieldName child))
                      (aggWithVarFieldName child) aggVal of
                 None \<Rightarrow> None
               | Some n1 \<Rightarrow> aggregationLoop cd alias rest (AddListChild fj alias n1))))"

definition addAggregations ::
  "codec \<Rightarrow> fastJsonNode \<Rightarrow> SubGraph \<Rightarrow> (fastJsonNode \<times> error option) option" where
  "addAggregations cd fj sg =
     (case aggregationLoop cd (Alias (Params sg)) (Children sg) fj of
        None \<Rightarrow> None
      | Some (fj', Some err) \<Rightarrow> Some (fj', Some err)
      | Some (fj', None) \<Rightarrow>
          Some (if IsEmpty fj' then AddListChild fj' (Alias (Params sg)) emptyNode else fj',
                None))"

subsection \<open>preTraverse\<close>

text \<open>
  A traversal is \<^verbatim>\<open>preTraverse\<close> of one subgraph: from the path of the subgraph,
  the store, the uid and the destination node to the store and the node after the
  call and the error returned (\<open>None\<close> for \<^verbatim>\<open>nil\<close>); the outer \<open>None\<close> is a
  panic (an index out of range, a failed type assertion).
\<close>

type_synonym traversal =
  "nat list \<Rightarrow> stacks \<Rightarrow> uid \<Rightarrow> fastJsonNode \<Rightarrow> (stacks \<times> fastJsonNode \<times> error option) option"

text \<open>The loops over the facets of one edge or value (lines 696-703 and 741-748): the
  node after the loop and the error \<^verbatim>\<open>facets.ValFor\<close> returned, if any.\<close>

fun addFacets ::
  "extern \<Rightarrow> string \<Rightarrow> Facet list \<Rightarrow> fastJsonNode \<Rightarrow> (fastJsonNode \<times> error option) option" where
  "addFacets ext fname [] n = Some (n, None)"
| "addFacets ext fname (f # fs) n =
     (case facets_ValFor ext f of
        Inl err \<Rightarrow> Some (n, Some err)
      | Inr fVal \<Rightarrow>
          (case AddValue (codec ext) n (facetName ext fname f) fVal of
             None \<Rightarrow> None
           | Some n' \<Rightarrow> addFacets ext fname fs n'))"

text \<open>Lines 706-715: a child node that is not empty is attached.\<close>

definition attachChild ::
  "SubGraph \<Rightarrow> SubGraph \<Rightarrow> string \<Rightarrow> uid \<Rightarrow> fastJsonNode \<Rightarrow> fastJsonNode \<Rightarrow> fastJsonNode" where
  "attachChild sg pc fname childUID uc dst =
     (if \<not> IsEmpty uc then
        (let uc' = (if GetUid (Params sg) then SetUID uc childUID ''uid'' else uc)
         in if List pc then AddListChild dst fname uc' else AddMapChild dst fname uc' False)
      else dst)"

text \<open>
  The loop of lines 675-716 over \<^verbatim>\<open>ul.Uids\<close>. \<open>trav\<close> is \<^verbatim>\<open>pc.preTraverse\<close> and
  \<open>pcPath\<close> the path of \<open>pc\<close>; the state is the store, \<^verbatim>\<open>dst\<close> and the set
  \<^verbatim>\<open>invalidUids\<close>; the result adds the error the loop returned with, if any.
\<close>

fun edgeLoop ::
  "extern \<Rightarrow> SubGraph \<Rightarrow> SubGraph \<Rightarrow> traversal \<Rightarrow> nat list \<Rightarrow> string \<Rightarrow> Facet list list
     \<Rightarrow> nat \<Rightarrow> uid list \<Rightarrow> stacks \<times> fastJsonNode \<times> uid set
     \<Rightarrow> (stacks \<times> fastJsonNode \<times> uid set \<times> error option) option" where
  "edgeLoop ext sg pc trav pcPath fname fcsList childIdx [] (st, dst, invalidUids) =
     Some (st, dst, invalidUids, None)"
| "edgeLoop ext sg pc trav pcPath fname fcsList childIdx (childUID # rest)
       (st, dst, invalidUids) =
     (if fname = [] \<or> childUID \<in> invalidUids
      then edgeLoop ext sg pc trav pcPath fname fcsList (childIdx + 1) rest
             (st, dst, invalidUids)
      else
        (case trav pcPath st childUID (New fname) of
           None \<Rightarrow> None
         | Some (st', uc, Some rerr) \<Rightarrow>
             if msg rerr = ''_INV_''
             then edgeLoop ext sg pc trav pcPath fname fcsList (childIdx + 1) rest
                    (st', dst, insert childUID invalidUids)
             else Some (st', dst, invalidUids, Some rerr)
         | Some (st', uc, None) \<Rightarrow>
             (case (if Facet_params (Params pc) \<noteq> None \<and> length fcsList > childIdx
                    then addFacets ext fname (fcsList ! childIdx) uc
                    else Some (uc, None)) of
                None \<Rightarrow> None
              | Some (uc', Some err) \<Rightarrow> Some (st', dst, invalidUids, Some err)
              | Some (uc', None) \<Rightarrow>
                  edgeLoop ext sg pc trav pcPath fname fcsList (childIdx + 1) rest
                    (st', attachChild sg pc fname childUID uc' dst, invalidUids))))"

text \<open>
  Lines 663-727, the predicate with destination uids at row \<open>idx\<close>. The assignment
  \<^verbatim>\<open>pc.Params.parentIds = sg.Params.parentIds\<close> is the update of the store at the
  path of \<open>pc\<close>, which is \<open>path @ [i]\<close>.
\<close>

definition edgeBranch ::
  "extern \<Rightarrow> SubGraph \<Rightarrow> nat list \<Rightarrow> nat \<Rightarrow> SubGraph \<Rightarrow> traversal \<Rightarrow> int \<Rightarrow> string
     \<Rightarrow> stacks \<times> fastJsonNode \<times> uid set
     \<Rightarrow> (stacks \<times> fastJsonNode \<times> uid set \<times> error option) option" where
  "edgeBranch ext sg path i pc trav idx fname s =
     (case s of (st, dst, invalidUids) \<Rightarrow>
      (case (if Facet_params (Params pc) \<noteq> None then index (facetsMatrix pc) idx
             else Some []) of
         None \<Rightarrow> None
       | Some fcsList \<Rightarrow>
           (let st1 = (if IgnoreReflex (Params sg) then st(path @ [i] := st path) else st);
                ul = elems (uidMatrix pc) ! nat idx
            in case edgeLoop ext sg pc trav (path @ [i]) fname fcsList 0 ul
                      (st1, dst, invalidUids) of
                 None \<Rightarrow> None
               | Some (st2, dst2, inv2, Some err) \<Rightarrow> Some (st2, dst2, inv2, Some err)
               | Some (st2, dst2, inv2, None) \<Rightarrow>
                   if uidCount (Params pc)
                      \<and> \<not> (uidCountAlias (Params pc) = [] \<and> Normalize (Params pc))
                   then
                     (case AddValue (codec ext) (New fname)
                             (if uidCountAlias (Params pc) = [] then ''count''
                              else uidCountAlias (Params pc))
                             \<lparr>Tid = IntID, Value = VInt64 (int (length ul))\<rparr> of
                        None \<Rightarrow> None
                      | Some uc \<Rightarrow> Some (st2, AddListChild dst2 fname uc, inv2, None))
                   else Some (st2, dst2, inv2, None))))"

text \<open>Lines 777-786: a value outside the expand-all case.\<close>

definition addPlainValue ::
  "extern \<Rightarrow> SubGraph \<Rightarrow> string \<Rightarrow> Val \<Rightarrow> fastJsonNode \<Rightarrow> fastJsonNode option" where
  "addPlainValue ext pc fname sv dst =
     (let encodeAsList = (List pc \<and> length (Langs (Params pc)) = 0)
      in if \<not> Normalize (Params pc) then AddListValue (codec ext) dst fname sv encodeAsList
         else if Alias (Params pc) \<noteq> [] then AddListValue (codec ext) dst fname sv encodeAsList
         else Some dst)"

text \<open>The loop of lines 755-787 over the values of row \<open>idx\<close>, \<open>i\<close> the index of the
  head of the list.\<close>

fun valueLoop ::
  "extern \<Rightarrow> SubGraph \<Rightarrow> int \<Rightarrow> string \<Rightarrow> nat \<Rightarrow> TaskValue list \<Rightarrow> fastJsonNode
     \<Rightarrow> (fastJsonNode \<times> error option) option" where
  "valueLoop ext pc idx fname i [] dst = Some (dst, None)"
| "valueLoop ext pc idx fname i (tv # tvs) dst =
     (case convertWithBestEffort ext tv (Attr pc) of
        Inl convErr \<Rightarrow> Some (dst, Some convErr)
      | Inr sv \<Rightarrow>
          (case (if expandAll (Params pc) then index (LangTags pc) idx else Some []) of
             None \<Rightarrow> None
           | Some langs \<Rightarrow>
               if expandAll (Params pc) \<and> length langs \<noteq> 0 then
                 (if i \<ge> length langs
                  then Some (dst, Some (Error
                         ''pb.error: all lang tags should be either present or absent''))
                  else
                    (let lang = langs ! i;
                         fieldNameWithTag = (if lang \<noteq> [] then fname @ ''@'' @ lang else fname);
                         encodeAsList = (List pc \<and> length lang = 0)
                     in case AddListValue (codec ext) dst fieldNameWithTag sv encodeAsList of
                          None \<Rightarrow> None
                        | Some dst' \<Rightarrow> valueLoop ext pc idx fname (i + 1) tvs dst'))
               else
                 (case addPlainValue ext pc fname sv dst of
                    None \<Rightarrow> None
                  | Some dst' \<Rightarrow> valueLoop ext pc idx fname (i + 1) tvs dst')))"

text \<open>Lines 728-788, the predicate without destination uids at row \<open>idx\<close>.\<close>

definition scalarBranch ::
  "extern \<Rightarrow> SubGraph \<Rightarrow> uid \<Rightarrow> int \<Rightarrow> fastJsonNode \<Rightarrow> (fastJsonNode \<times> error option) option" where
  "scalarBranch ext pc u idx dst =
     (let fname = (if Alias (Params pc) = [] \<and> length (Langs (Params pc)) > 0
                   then fieldName pc @ ''@'' @ strings_Join (Langs (Params pc)) '':''
                   else fieldName pc)
      in if Attr pc = ''uid'' then Some (SetUID dst u (fieldName pc), None)
         else
           (case (if int (length (facetsMatrix pc)) > idx
                     \<and> length (facetsMatrix pc ! nat idx) > 0
                  then addFacets ext fname (facetsMatrix pc ! nat idx ! 0) dst
                  else Some (dst, None)) of
              None \<Rightarrow> None
            | Some (dst1, Some err) \<Rightarrow> Some (dst1, Some err)
            | Some (dst1, None) \<Rightarrow>
                if int (length (valueMatrix pc)) \<le> idx then Some (dst1, None)
                else valueLoop ext pc idx fname 0 (valueMatrix pc ! nat idx) dst1))"

text \<open>
  The body of the loop over \<^verbatim>\<open>sg.Children\<close> (lines 618-788) for the child \<open>pc\<close> at
  index \<open>i\<close>: a \<^verbatim>\<open>continue\<close> is a result without error, a \<^verbatim>\<open>return err\<close> a
  result with one.
\<close>

definition processChild ::
  "extern \<Rightarrow> SubGraph \<Rightarrow> nat list \<Rightarrow> uid \<Rightarrow> nat \<Rightarrow> SubGraph \<Rightarrow> traversal
     \<Rightarrow> stacks \<times> fastJsonNode \<times> uid set
     \<Rightarrow> (stacks \<times> fastJsonNode \<times> uid set \<times> error option) option" where
  "processChild ext sg path u i pc trav s =
     (case s of (st, dst, invalidUids) \<Rightarrow>
      if ignoreResult (Params pc) then Some (st, dst, invalidUids, None)
      else if IsInternal ext pc then
        (if Expand (Params pc) \<noteq> [] then Some (st, dst, invalidUids, None)
         else if Normalize (Params pc) \<and> Alias (Params pc) = []
         then Some (st, dst, invalidUids, None)
         else
           (case addInternalNode (codec ext) pc u dst of
              None \<Rightarrow> None
            | Some dst' \<Rightarrow> Some (st, dst', invalidUids, None)))
      else if length (elems (uidMatrix pc)) = 0 then Some (st, dst, invalidUids, None)
      else if length (facetsMatrix pc) > 0
              \<and> length (facetsMatrix pc) \<noteq> length (elems (uidMatrix pc))
      then Some (st, dst, invalidUids,
             Some (Error (''Length of facetsMatrix and uidMatrix mismatch: ''
               @ fmt_d (int (length (facetsMatrix pc))) @ '' vs ''
               @ fmt_d (int (length (elems (uidMatrix pc)))))))
      else
        (let idx = algo_IndexOf ext (SrcUIDs pc) u
         in if idx < 0 then Some (st, dst, invalidUids, None)
            else if isGroupBy (Params pc) then
              (if int (length (GroupbyRes pc)) \<le> idx
               then Some (st, dst, invalidUids,
                      Some (Error (''Unexpected length while adding Groupby. Idx: [''
                        @ fmt_d idx @ ''], len: [''
                        @ fmt_d (int (length (GroupbyRes pc))) @ '']'')))
               else
                 (case addGroupby (codec ext) dst (GroupbyRes pc ! nat idx) (fieldName pc) of
                    None \<Rightarrow> None
                  | Some dst' \<Rightarrow> Some (st, dst', invalidUids, None)))
            else if length (counts pc) > 0 then
              (case index (counts pc) idx of
                 None \<Rightarrow> None
               | Some c \<Rightarrow>
                   (case addCount (codec ext) pc (ucast c) dst of
                      None \<Rightarrow> None
                    | Some dst' \<Rightarrow> Some (st, dst', invalidUids, None)))
            else if SrcFunc pc = Some ''checkpwd'' then
              (case index (valueMatrix pc) idx of
                 None \<Rightarrow> None
               | Some vals \<Rightarrow>
                   (case addCheckPwd ext pc vals dst of
                      None \<Rightarrow> None
                    | Some dst' \<Rightarrow> Some (st, dst', invalidUids, None)))
            else if idx < int (length (elems (uidMatrix pc)))
                    \<and> length (elems (uidMatrix pc) ! nat idx) > 0
            then edgeBranch ext sg path i pc trav idx (fieldName pc) (st, dst, invalidUids)
            else
              (case scalarBranch ext pc u idx dst of
                 None \<Rightarrow> None
               | Some (dst', r) \<Rightarrow> Some (st, dst', invalidUids, r))))"

text \<open>
  The loop over \<^verbatim>\<open>sg.Children\<close>: \<open>i\<close> is the index of the head of \<open>pcs\<close>, and
  \<open>travs\<close> holds \<^verbatim>\<open>pc.preTraverse\<close> for each of them.
\<close>

fun childrenLoop ::
  "extern \<Rightarrow> SubGraph \<Rightarrow> nat list \<Rightarrow> uid \<Rightarrow> nat \<Rightarrow> SubGraph list \<Rightarrow> traversal list
     \<Rightarrow> stacks \<times> fastJsonNode \<times> uid set
     \<Rightarrow> (stacks \<times> fastJsonNode \<times> error option) option" where
  "childrenLoop ext sg path u i (pc # pcs) (trav # travs) s =
     (case processChild ext sg path u i pc trav s of
        None \<Rightarrow> None
      | Some (st', dst', inv', Some err) \<Rightarrow> Some (st', dst', Some err)
      | Some (st', dst', inv', None) \<Rightarrow>
          childrenLoop ext sg path u (i + 1) pcs travs (st', dst', inv'))"
| "childrenLoop ext sg path u i pcs travs (st, dst, invalidUids) = Some (st, dst, None)"

text \<open>
  \<^verbatim>\<open>preTraverse\<close>: the cycle guard and the push (lines 606-613), the loop over the
  children, and, when the loop did not return, the pop (lines 791-794), the uid field
  and the weight (lines 798-808).
\<close>

definition afterChildren ::
  "extern \<Rightarrow> SubGraph \<Rightarrow> nat list \<Rightarrow> uid \<Rightarrow> stacks \<Rightarrow> fastJsonNode
     \<Rightarrow> (stacks \<times> fastJsonNode \<times> error option) option" where
  "afterChildren ext sg path u st dst =
     (let st' = (if IgnoreReflex (Params sg) \<and> length (st path) > 0
                 then st(path := butlast (st path)) else st);
          dst' = (if (GetUid (Params sg) \<and> \<not> IsEmpty dst) \<or> shortest (Params sg)
                  then SetUID dst u ''uid'' else dst)
      in case pathMeta sg of
           None \<Rightarrow> Some (st', dst', None)
         | Some weight \<Rightarrow>
             (case AddValue (codec ext) dst' ''_weight_''
                     \<lparr>Tid = FloatID, Value = VFloat64 weight\<rparr> of
                None \<Rightarrow> None
              | Some dst'' \<Rightarrow> Some (st', dst'', None)))"

definition traverseWith ::
  "extern \<Rightarrow> SubGraph \<Rightarrow> traversal list \<Rightarrow> traversal" where
  "traverseWith ext sg travs path st u dst =
     (if IgnoreReflex (Params sg) \<and> alreadySeen (st path) u then Some (st, dst, None)
      else
        (let st1 = (if IgnoreReflex (Params sg) then st(path := st path @ [u]) else st)
         in case childrenLoop ext sg path u 0 (Children sg) travs (st1, dst, {}) of
              None \<Rightarrow> None
            | Some (st2, dst2, Some err) \<Rightarrow> Some (st2, dst2, Some err)
            | Some (st2, dst2, None) \<Rightarrow> afterChildren ext sg path u st2 dst2))"

fun preTraverse :: "extern \<Rightarrow> SubGraph \<Rightarrow> traversal" where
  "preTraverse ext (SubGraph p a ch um fm su du gr co sf vm lt li pm) =
     traverseWith ext (SubGraph p a ch um fm su du gr co sf vm lt li pm)
       (map (preTraverse ext) ch)"

text \<open>
  A traversal is framed when it leaves the \<^verbatim>\<open>parentIds\<close> of every subgraph outside
  the subtree it is called on as they were.
\<close>

definition framed :: "traversal \<Rightarrow> bool" where
  "framed trav = (\<forall>p st u dst st' d r.
     trav p st u dst = Some (st', d, r) \<longrightarrow> (\<forall>q. \<not> prefix p q \<longrightarrow> st' q = st q))"

subsection \<open>processNodeUids and toFastJSON\<close>

text \<open>
  The loop of lines 452-485 over \<^verbatim>\<open>sg.uidMatrix[0].Uids\<close>; the state is the store,
  \<^verbatim>\<open>fj\<close> and \<^verbatim>\<open>hasChild\<close>. \<open>addRows\<close> is the loop of lines 482-484 over the
  normalized rows.
\<close>

fun addRows :: "string \<Rightarrow> row list \<Rightarrow> fastJsonNode \<Rightarrow> fastJsonNode" where
  "addRows alias [] fj = fj"
| "addRows alias (c # cs) fj = addRows alias cs (AddListChild fj alias (set_attrs c emptyNode))"

fun uidLoop ::
  "extern \<Rightarrow> SubGraph \<Rightarrow> nat list \<Rightarrow> uid list \<Rightarrow> stacks \<times> fastJsonNode \<times> bool
     \<Rightarrow> (stacks \<times> fastJsonNode \<times> bool \<times> error option) option" where
  "uidLoop ext sg path [] (st, fj, hasChild) = Some (st, fj, hasChild, None)"
| "uidLoop ext sg path (u # us) (st, fj, hasChild) =
     (if algo_IndexOf ext (DestUIDs sg) u < 0 then uidLoop ext sg path us (st, fj, hasChild)
      else
        (case preTraverse ext sg path st u (New (Alias (Params sg))) of
           None \<Rightarrow> None
         | Some (st', n1, Some err) \<Rightarrow>
             if msg err = ''_INV_'' then uidLoop ext sg path us (st', fj, hasChild)
             else Some (st', fj, hasChild, Some err)
         | Some (st', n1, None) \<Rightarrow>
             if IsEmpty n1 then uidLoop ext sg path us (st', fj, hasChild)
             else if \<not> Normalize (Params sg)
             then uidLoop ext sg path us (st', AddListChild fj (Alias (Params sg)) n1, True)
             else
               (case normalize_fj (sort_Sort ext) (NormalizeNodeLimit ext) n1 of
                  Inl err \<Rightarrow> Some (st', fj, True, Some err)
                | Inr normalized \<Rightarrow>
                    uidLoop ext sg path us
                      (st', addRows (Alias (Params sg)) normalized fj, True))))"

text \<open>
  The uids of a list, visited in order from the store \<open>st\<close> as the loop visits them,
  yield nothing: each is filtered out (line 454), or its traversal returns the error
  \<^verbatim>\<open>_INV_\<close>, or it returns without error and leaves the node empty. This is the
  condition under which a root has no results; it speaks of \<^verbatim>\<open>preTraverse\<close> only.
\<close>

fun barren :: "extern \<Rightarrow> SubGraph \<Rightarrow> nat list \<Rightarrow> uid list \<Rightarrow> stacks \<Rightarrow> bool" where
  "barren ext sg path [] st = True"
| "barren ext sg path (u # us) st =
     (if algo_IndexOf ext (DestUIDs sg) u < 0 then barren ext sg path us st
      else
        (case preTraverse ext sg path st u (New (Alias (Params sg))) of
           None \<Rightarrow> False
         | Some (st', n1, Some err) \<Rightarrow> msg err = ''_INV_'' \<and> barren ext sg path us st'
         | Some (st', n1, None) \<Rightarrow> IsEmpty n1 \<and> barren ext sg path us st'))"

text \<open>Whether line 438 attaches the count of the root.\<close>

definition countsAtRoot :: "SubGraph \<Rightarrow> bool" where
  "countsAtRoot sg =
     (uidCount (Params sg) \<and> \<not> (uidCountAlias (Params sg) = [] \<and> Normalize (Params sg)))"

text \<open>
  \<^verbatim>\<open>processNodeUids\<close>, for the subgraph at \<open>path\<close>: the store and \<^verbatim>\<open>fj\<close> after
  the call and the error returned. \<^verbatim>\<open>sg.uidMatrix[0]\<close> of an empty matrix that is
  not \<^verbatim>\<open>nil\<close> is the panic out of range.
\<close>

definition processNodeUids ::
  "extern \<Rightarrow> fastJsonNode \<Rightarrow> SubGraph \<Rightarrow> nat list \<Rightarrow> stacks
     \<Rightarrow> (stacks \<times> fastJsonNode \<times> error option) option" where
  "processNodeUids ext fj sg path st =
     (if Params_IsEmpty (Params sg) then
        (case addAggregations (codec ext) fj sg of
           None \<Rightarrow> None
         | Some (fj', r) \<Rightarrow> Some (st, fj', r))
      else
        (case uidMatrix sg of
           None \<Rightarrow> Some (st, AddListChild fj (Alias (Params sg)) emptyNode, None)
         | Some m \<Rightarrow>
             (case (if countsAtRoot sg then addCountAtRoot (codec ext) fj sg else Some fj) of
                None \<Rightarrow> None
              | Some fj1 \<Rightarrow>
                  if isGroupBy (Params sg) then
                    (if length (GroupbyRes sg) = 0
                     then Some (st, fj1, Some (Error ''Expected GroupbyRes to have length > 0.''))
                     else
                       (case addGroupby (codec ext) fj1 (GroupbyRes sg ! 0)
                               (Alias (Params sg)) of
                          None \<Rightarrow> None
                        | Some fj2 \<Rightarrow> Some (st, fj2, None)))
                  else
                    (case m of
                       [] \<Rightarrow> None
                     | uids # _ \<Rightarrow>
                         (case uidLoop ext sg path uids (st, fj1, countsAtRoot sg) of
                            None \<Rightarrow> None
                          | Some (st', fj2, hasChild, Some err) \<Rightarrow> Some (st', fj2, Some err)
                          | Some (st', fj2, hasChild, None) \<Rightarrow>
                              Some (st',
                                (if \<not> hasChild
                                 then AddListChild fj2 (Alias (Params sg)) emptyNode
                                 else fj2),
                                None))))))"

text \<open>
  \<^verbatim>\<open>toFastJSON\<close>: the loop over \<^verbatim>\<open>sg.Children\<close>, the child at index \<open>i\<close>
  having the path \<open>[i]\<close>, and then the bytes of the root node. The deferred
  assignment to the latency record is a reading of the clock and is left out.
\<close>

fun rootsLoop ::
  "extern \<Rightarrow> nat \<Rightarrow> SubGraph list \<Rightarrow> stacks \<times> fastJsonNode
     \<Rightarrow> (stacks \<times> fastJsonNode \<times> error option) option" where
  "rootsLoop ext i [] (st, n) = Some (st, n, None)"
| "rootsLoop ext i (sg # sgs) (st, n) =
     (case processNodeUids ext n sg [i] st of
        None \<Rightarrow> None
      | Some (st', n', Some err) \<Rightarrow> Some (st', n', Some err)
      | Some (st', n', None) \<Rightarrow> rootsLoop ext (i + 1) sgs (st', n'))"

definition toFastJSON :: "extern \<Rightarrow> SubGraph \<Rightarrow> stacks \<Rightarrow> (stacks \<times> (error + bytes)) option" where
  "toFastJSON ext sg st =
     (case rootsLoop ext 0 (Children sg) (st, New ''_root_'') of
        None \<Rightarrow> None
      | Some (st', n, Some err) \<Rightarrow> Some (st', Inl err)
      | Some (st', n, None) \<Rightarrow> Some (st', Inr (rootBytes n)))"

text \<open>
  \<^verbatim>\<open>ToJson\<close>: the subgraphs aliased \<^verbatim>\<open>var\<close> or \<^verbatim>\<open>shortest\<close> are left out, the
  others become the children of a subgraph that is otherwise Go's zero value
  (\<open>zeroSubGraph\<close> with \<open>zeroParams\<close>), which asks for uids when one of them does.
\<close>

definition zeroParams :: params where
  "zeroParams =
     \<lparr> Alias = [], GetUid = False, IgnoreReflex = False, ignoreResult = False, Expand = [],
       Normalize = False, uidToVal = Map.empty, isGroupBy = False, Facet_params = None,
       uidCount = False, uidCountAlias = [], Langs = [], expandAll = False, shortest = False,
       Params_IsEmpty = False, NeedsVar = [], Var = [] \<rparr>"

definition zeroSubGraph :: SubGraph where
  "zeroSubGraph = SubGraph zeroParams [] [] None [] [] [] [] [] None [] [] False None"

definition ToJson :: "extern \<Rightarrow> SubGraph list \<Rightarrow> stacks \<Rightarrow> (stacks \<times> (error + bytes)) option" where
  "ToJson ext sgl st =
     (let kept = filter (\<lambda>sg. Alias (Params sg) \<noteq> ''var'' \<and> Alias (Params sg) \<noteq> ''shortest'') sgl
      in toFastJSON ext
           (SubGraph (zeroParams\<lparr>GetUid := (\<exists>sg \<in> set kept. GetUid (Params sg))\<rparr>) [] kept
              None [] [] [] [] [] None [] [] False None)
           st)"

section \<open>Values for the examples\<close>

text \<open>
  A codec for the examples: it renders a string without characters to escape between
  quotes, an integer in decimal and an identifier in hexadecimal, as the library does
  on these values, and nothing else.
\<close>

definition exampleCodec :: codec where
  "exampleCodec =
     \<lparr> json_Marshal = (\<lambda>v. case v of VString s \<Rightarrow> Inr (quoted s) | _ \<Rightarrow> Inl (Error ''json'')),
       fmt_Sprintf = (\<lambda>f v. case v of
                         VInt64 i \<Rightarrow> fmt_d i
                       | VUint64 u \<Rightarrow> quoted (fmt_hex u)
                       | VString s \<Rightarrow> quoted s
                       | _ \<Rightarrow> []),
       time_IsZero = (\<lambda>t. t = Time 0),
       time_MarshalJSON = (\<lambda>t. Inl (Error ''time'')),
       geojson_Marshal = (\<lambda>g. Inl (Error ''geo'')) \<rparr>"

text \<open>A sort for the examples: insertion by the key \<^verbatim>\<open>Less\<close> compares.\<close>

definition nodeKey :: "fastJsonNode \<Rightarrow> string \<times> int" where
  "nodeKey n = (attr n, order n)"

definition exampleSort :: "row \<Rightarrow> row" where
  "exampleSort xs = sort_key nodeKey xs"

text \<open>Nodes for the examples of \<^verbatim>\<open>normalize\<close>.\<close>

definition exUidA :: fastJsonNode where
  "exUidA = FastJsonNode ''uid'' 0 False ''\"0x1\"'' [] False"

definition exUidB :: fastJsonNode where
  "exUidB = FastJsonNode ''uid'' 1 False ''\"0x2\"'' [] False"

definition exName :: fastJsonNode where
  "exName = FastJsonNode ''name'' 2 False ''\"x\"'' [] False"

definition exFlat :: fastJsonNode where
  "exFlat = FastJsonNode ''q'' 0 False [] [exUidA, exUidB] False"

definition exNested :: fastJsonNode where
  "exNested = FastJsonNode ''q'' 0 False []
     [exUidA, FastJsonNode ''friend'' 0 True [] [exName, exUidB] False] False"

text \<open>
  The other library functions for the examples: a linear search for
  \<^verbatim>\<open>algo.IndexOf\<close>, facets and values taken as strings, and a subgraph internal when
  it has no attribute. Then a query for the names of people and their friends, where
  uid 1 has the friends 1 and 2; the same root over a predicate whose facets matrix is
  shorter than its uid matrix; a root without predicates whose first uid is a destination
  and whose second is filtered out; and a root whose only uid is filtered out and that
  asks for the count.
\<close>

fun exampleIndexOf :: "uid list \<Rightarrow> uid \<Rightarrow> int" where
  "exampleIndexOf [] u = - 1"
| "exampleIndexOf (x # xs) u =
     (if x = u then 0 else (let r = exampleIndexOf xs u in if r < 0 then - 1 else r + 1))"

definition exampleExtern :: extern where
  "exampleExtern =
     \<lparr> codec = exampleCodec, NormalizeNodeLimit = 10000, FacetDelimeter = ''|'',
       sort_Sort = exampleSort, algo_IndexOf = exampleIndexOf,
       facets_ValFor = (\<lambda>f. Inr \<lparr>Tid = StringID, Value = VString (Facet_Value f)\<rparr>),
       convertWithBestEffort =
         (\<lambda>tv a. Inr \<lparr>Tid = TaskValue_ValType tv, Value = VString (TaskValue_Val tv)\<rparr>),
       task_ToBool = (\<lambda>tv. TaskValue_Val tv \<noteq> []),
       IsInternal = (\<lambda>sg. Attr sg = []) \<rparr>"

definition exNamePred :: SubGraph where
  "exNamePred = SubGraph (zeroParams\<lparr>IgnoreReflex := True\<rparr>) ''name'' [] (Some [[], []]) []
     [1, 2] [] [] [] None
     [[TaskValue ''Alice'' StringID], [TaskValue ''Bob'' StringID]] [] False None"

definition exFriendPred :: SubGraph where
  "exFriendPred = SubGraph (zeroParams\<lparr>IgnoreReflex := True\<rparr>) ''friend'' [exNamePred]
     (Some [[1, 2]]) [] [1] [] [] [] None [] [] True None"

definition exPeople :: SubGraph where
  "exPeople = SubGraph (zeroParams\<lparr>Alias := ''people'', IgnoreReflex := True\<rparr>) []
     [exNamePred, exFriendPred] (Some [[1]]) [] [] [1] [] [] None [] [] False None"

definition exBroken :: SubGraph where
  "exBroken = SubGraph (zeroParams\<lparr>Alias := ''people'', IgnoreReflex := True\<rparr>) []
     [SubGraph zeroParams ''friend'' [] (Some [[2], [3]]) [[]] [1] [] [] [] None [] [] True None]
     (Some [[1]]) [] [] [1] [] [] None [] [] False None"

definition exBarren :: SubGraph where
  "exBarren = SubGraph (zeroParams\<lparr>Alias := ''q''\<rparr>) [] [] (Some [[5, 6]]) [] [] [5] [] []
     None [] [] False None"

definition exCounted :: SubGraph where
  "exCounted = SubGraph (zeroParams\<lparr>Alias := ''q'', uidCount := True\<rparr>) [] []
     (Some [[5]]) [] [] [] [] [] None [] [] False None"

section \<open>Properties\<close>

subsection \<open>The examples\<close>

lemma not_Less_iff: "\<not> Less b a \<longleftrightarrow> nodeKey a \<le> nodeKey b"
  by (auto simp: Less_def strings_Compare_def nodeKey_def Let_def)

lemma sorts_exampleSort: "sorts exampleSort"
proof -
  have "sorted_wrt (\<lambda>a b. nodeKey a \<le> nodeKey b) (sort_key nodeKey xs)" for xs
    using sorted_sort_key [of nodeKey xs] by (simp only: sorted_map)
  then show ?thesis
    by (simp add: sorts_def exampleSort_def not_Less_iff)
qed

lemma fmt_hex_1: "fmt_hex 1 = ''0x1''"
  by (simp add: fmt_hex_def showNat.simps digit_def)

subsection \<open>SetUID\<close>

text \<open>
  C6. A call of \<^verbatim>\<open>SetUID\<close> with the name \<^verbatim>\<open>"uid"\<close> on a node that already has
  a field named \<^verbatim>\<open>"uid"\<close> changes nothing, so a second call after a first is a no-op;
  a call on a node without such a field, and every call with another name, appends the
  identifier as a scalar field (quoted hexadecimal, not a child, not list-tagged).
\<close>

theorem SetUID_uid_idempotent:
  "((\<exists>x \<in> set (attrs fj). attr x = ''uid'') \<longrightarrow> SetUID fj u ''uid'' = fj)
   \<and> SetUID (SetUID fj u ''uid'') u' ''uid'' = SetUID fj u ''uid''
   \<and> (\<not> (\<exists>x \<in> set (attrs fj). attr x = ''uid'') \<or> a \<noteq> ''uid'' \<longrightarrow>
        SetUID fj u a
          = set_attrs (attrs fj @ [makeScalarNode a False (quoted (fmt_hex u)) False]) fj)"
  by (auto simp: SetUID_def set_attrs_def makeScalarNode_def)

theorem SetUID_uid_idempotent_witness:
  "SetUID (SetUID (New ''q'') 1 ''uid'') 2 ''uid'' = SetUID (New ''q'') 1 ''uid''
   \<and> SetUID (New ''q'') 1 ''uid''
       = FastJsonNode ''q'' 0 False [] [FastJsonNode ''uid'' 0 False ''\"0x1\"'' [] False] False
   \<and> SetUID (SetUID (New ''q'') 1 ''uid'') 2 ''uid''
       = FastJsonNode ''q'' 0 False [] [FastJsonNode ''uid'' 0 False ''\"0x1\"'' [] False] False"
proof -
  have fresh: "\<not> (\<exists>x \<in> set (attrs (New ''q'')). attr x = ''uid'')"
    by (simp add: New_def)
  have twice: "SetUID (SetUID (New ''q'') 1 ''uid'') 2 ''uid'' = SetUID (New ''q'') 1 ''uid''"
    using SetUID_uid_idempotent [of "New ''q''" 1 2 "''uid''"] by blast
  have once: "SetUID (New ''q'') 1 ''uid''
      = set_attrs (attrs (New ''q'') @ [makeScalarNode ''uid'' False (quoted (fmt_hex 1)) False])
          (New ''q'')"
    using SetUID_uid_idempotent [of "New ''q''" 1 2 "''uid''"] fresh by blast
  have val: "SetUID (New ''q'') 1 ''uid''
      = FastJsonNode ''q'' 0 False [] [FastJsonNode ''uid'' 0 False ''\"0x1\"'' [] False] False"
    unfolding once by (simp add: New_def set_attrs_def makeScalarNode_def quoted_def fmt_hex_1)
  show ?thesis
    using twice val by simp
qed

subsection \<open>Values the codec cannot render\<close>

text \<open>
  C7. When \<^verbatim>\<open>valToBytes\<close> returns an error for a value, as it does with the
  unsupported-type error for every type identifier outside its \<^verbatim>\<open>switch\<close>,
  \<^verbatim>\<open>AddListValue\<close> and \<^verbatim>\<open>AddValue\<close> return normally and leave the node as it
  was: the value is dropped and nothing fails.
\<close>

theorem AddListValue_unsupported_dropped:
  "(valToBytes cd v = Some (Inl e) \<longrightarrow>
      AddListValue cd fj a v l = Some fj \<and> AddValue cd fj a v = Some fj)
   \<and> (Tid v = UndefinedID \<longrightarrow>
      valToBytes cd v = Some (Inl unsupported)
      \<and> AddListValue cd fj a v l = Some fj \<and> AddValue cd fj a v = Some fj)"
  by (simp add: AddListValue_def AddValue_def)

theorem AddListValue_unsupported_dropped_witness:
  "valToBytes exampleCodec \<lparr>Tid = UndefinedID, Value = VNil\<rparr> = Some (Inl unsupported)
   \<and> AddListValue exampleCodec (New ''q'') ''name'' \<lparr>Tid = UndefinedID, Value = VNil\<rparr> True
       = Some (New ''q'')
   \<and> AddValue exampleCodec (New ''q'') ''name'' \<lparr>Tid = UndefinedID, Value = VNil\<rparr>
       = Some (New ''q'')"
  using AddListValue_unsupported_dropped
    [of exampleCodec "\<lparr>Tid = UndefinedID, Value = VNil\<rparr>" unsupported "New ''q''" "''name''" True]
  by simp

subsection \<open>The encoder\<close>

lemma encodeLoop_prefix:
  "(\<And>x p o'. x \<in> set (cur # rest) \<Longrightarrow> enc x (p @ o') = p @ enc x o')
   \<Longrightarrow> encodeLoop enc cur rest cnt ia (p @ out) = p @ encodeLoop enc cur rest cnt ia out"
proof (induction rest arbitrary: cur cnt ia out)
  case Nil
  have e: "enc cur (p @ o') = p @ enc cur o'" for o'
    using Nil by simp
  show ?case
    by (simp add: Let_def e)
next
  case (Cons nxt rest)
  have e: "enc cur (p @ o') = p @ enc cur o'" for o'
    using Cons.prems by simp
  have r: "encodeLoop enc nxt rest c i (p @ o') = p @ encodeLoop enc nxt rest c i o'" for c i o'
    by (rule Cons.IH) (use Cons.prems in auto)
  show ?case
    by (simp add: Let_def e r)
qed

lemma encode_prefix: "encode n (p @ out) = p @ encode n out"
proof (induction n arbitrary: p out)
  case (FastJsonNode a ord c sv as l)
  show ?case
  proof (cases as)
    case Nil
    then show ?thesis by simp
  next
    case (Cons cur rest)
    have "encodeLoop encode cur rest 1 False (p @ (out @ ''{''))
        = p @ encodeLoop encode cur rest 1 False (out @ ''{'')"
      by (rule encodeLoop_prefix) (use FastJsonNode Cons in auto)
    with Cons show ?thesis by simp
  qed
qed

lemma encode_append: "encode n out = out @ encode n []"
  using encode_prefix [of n out "[]"] by simp


lemma encodeLoop_map:
  "(\<And>x o'. x \<in> set (cur # rest) \<Longrightarrow>
      enc x o' = enc' (f x) o' \<and> attr (f x) = attr x \<and> isChild (f x) = isChild x
      \<and> list (f x) = list x)
   \<Longrightarrow> encodeLoop enc cur rest cnt ia out = encodeLoop enc' (f cur) (map f rest) cnt ia out"
proof (induction rest arbitrary: cur cnt ia out)
  case Nil
  then show ?case by (simp add: Let_def writeKey_def)
next
  case (Cons nxt rest)
  have c: "enc cur o' = enc' (f cur) o'" "attr (f cur) = attr cur" "isChild (f cur) = isChild cur"
    "list (f cur) = list cur" "attr (f nxt) = attr nxt" for o'
    using Cons.prems by simp_all
  have r: "encodeLoop enc nxt rest c i o' = encodeLoop enc' (f nxt) (map f rest) c i o'" for c i o'
    by (rule Cons.IH) (use Cons.prems in auto)
  show ?case
    by (simp add: Let_def c r writeKey_def)
qed

lemma forgetOrder_sel [simp]:
  "attr (forgetOrder n) = attr n" "isChild (forgetOrder n) = isChild n"
  "list (forgetOrder n) = list n" "scalarVal (forgetOrder n) = scalarVal n"
  by (cases n; simp)+

lemma encode_forgetOrder: "encode (forgetOrder n) out = encode n out"
proof (induction n arbitrary: out)
  case (FastJsonNode a ord c sv as l)
  show ?case
  proof (cases as)
    case Nil
    then show ?thesis by simp
  next
    case (Cons cur rest)
    have "encodeLoop encode cur rest 1 False o'
        = encodeLoop encode (forgetOrder cur) (map forgetOrder rest) 1 False o'" for o'
      by (rule encodeLoop_map) (use FastJsonNode Cons in auto)
    with Cons show ?thesis by simp
  qed
qed

lemma forgetOrder_set_order [simp]: "forgetOrder (set_order i n) = forgetOrder n"
  by (cases n) (simp add: set_order_def)

lemma map_forgetOrder_reorder [simp]: "map forgetOrder (reorder i xs) = map forgetOrder xs"
  by (induction xs arbitrary: i) simp_all

lemma forgetOrder_encode_orders: "forgetOrder (encode_orders n) = forgetOrder n"
  by (induction n) (simp add: map_idI cong: map_cong)

text \<open>
  C4. A node whose children are named \<open>a, a, b, a\<close> in that order, the last \<open>a\<close>
  structural or list-tagged and \<open>b\<close> a plain scalar, encodes as one object: the key
  \<open>a\<close> with an array of the first two children, the key \<open>b\<close> with the bare
  value, and the key \<open>a\<close> again with an array of the last child alone. Children are
  grouped with their neighbours only.
\<close>

theorem encode_groups_consecutive:
  assumes "attr a1 = a" "attr a2 = a" "attr a4 = a" "attr b \<noteq> a"
    and "isChild a4 \<or> list a4" "\<not> isChild b" "\<not> list b"
  shows "encode (FastJsonNode n ord c sv [a1, a2, b, a4] l) out
    = out @ ''{'' @ quoted a @ '':['' @ encode a1 [] @ '','' @ encode a2 [] @ ''],''
        @ quoted (attr b) @ '':'' @ encode b [] @ '',''
        @ quoted a @ '':['' @ encode a4 [] @ '']}''"
proof -
  have e: "encode x (p @ o') = p @ encode x o'" for x p o'
    by (rule encode_prefix)
  have e1: "encode x (c1 # o') = c1 # encode x o'" for x c1 o'
    using encode_prefix [of x "[c1]" o'] by simp
  show ?thesis
    using assms by (simp add: Let_def writeKey_def quoted_def e e1)
qed


theorem encode_groups_consecutive_witness:
  "encode (FastJsonNode ''r'' 0 False []
      [FastJsonNode ''a'' 0 False ''1'' [] True, FastJsonNode ''a'' 0 False ''2'' [] True,
       FastJsonNode ''b'' 0 False ''3'' [] False, FastJsonNode ''a'' 0 False ''4'' [] True] False) []
   = ''{\"a\":[1,2],\"b\":3,\"a\":[4]}''"
  using encode_groups_consecutive
    [of "FastJsonNode ''a'' 0 False ''1'' [] True" "''a''"
        "FastJsonNode ''a'' 0 False ''2'' [] True" "FastJsonNode ''a'' 0 False ''4'' [] True"
        "FastJsonNode ''b'' 0 False ''3'' [] False" "''r''" 0 False "[]" False "[]"]
  by (simp add: quoted_def)

text \<open>
  C8. Encoding the tree that a first \<^verbatim>\<open>encode\<close> left behind (every child's
  \<^verbatim>\<open>order\<close> reassigned to its index) appends the same bytes as the first call.
\<close>

theorem encode_twice:
  "encode (encode_orders fj) out = encode fj out"
  using encode_forgetOrder [of "encode_orders fj" out] encode_forgetOrder [of fj out]
  by (simp add: forgetOrder_encode_orders)

theorem encode_twice_witness:
  "encode (encode_orders (FastJsonNode ''r'' 7 False []
      [FastJsonNode ''a'' 5 False ''1'' [] True, FastJsonNode ''b'' 5 False ''3'' [] False] False)) []
   = ''{\"a\":[1],\"b\":3}''
  \<and> encode (FastJsonNode ''r'' 7 False []
      [FastJsonNode ''a'' 5 False ''1'' [] True, FastJsonNode ''b'' 5 False ''3'' [] False] False) []
   = ''{\"a\":[1],\"b\":3}''"
  using encode_twice [of "FastJsonNode ''r'' 7 False []
      [FastJsonNode ''a'' 5 False ''1'' [] True, FastJsonNode ''b'' 5 False ''3'' [] False] False" "[]"]
  by (simp add: Let_def writeKey_def)

text \<open>
  C5, amended. A node with no children is empty, and \<^verbatim>\<open>encode\<close> appends its
  \<^verbatim>\<open>scalarVal\<close> and nothing else (no bytes at all for a fresh internal node, not
  the two bytes of an empty object); the bytes \<^verbatim>\<open>toFastJSON\<close> returns for a root
  with no children are the empty object; and an empty node attached as a list child
  renders as an array holding its \<^verbatim>\<open>scalarVal\<close>, which is the empty array for a
  fresh internal node.
\<close>

theorem empty_node_encoding:
  assumes "attrs fj = []"
  shows "IsEmpty fj \<and> encode fj out = out @ scalarVal fj \<and> rootBytes fj = ''{}''
    \<and> encode (AddListChild (New r) k fj) [] = ''{'' @ quoted k @ '':['' @ scalarVal fj @ '']}''"
  using assms
  by (cases fj)
    (simp add: IsEmpty_def rootBytes_def AddListChild_def New_def set_attrs_def set_isChild_def
      set_attr_def Let_def writeKey_def quoted_def)

theorem empty_node_encoding_witness:
  "IsEmpty (New ''q'') \<and> encode (New ''q'') [] = [] \<and> rootBytes (New ''q'') = ''{}''
   \<and> encode (AddListChild (New ''_root_'') ''q'' (New ''q'')) [] = ''{\"q\":[]}''"
  using empty_node_encoding [of "New ''q''" "[]" "''_root_''" "''q''"]
  by (simp add: New_def quoted_def)

theorem empty_node_encoding_counterexample:
  "attrs (New ''q'') = [] \<and> encode (New ''q'') [] = [] \<and> encode (New ''q'') [] \<noteq> ''{}''
   \<and> attrs emptyNode = []
   \<and> encode (AddListChild (New ''_root_'') ''q'' emptyNode) [] = ''{\"q\":[]}''
   \<and> encode (AddListChild (New ''_root_'') ''q'' emptyNode) [] \<noteq> ''{\"q\":[{}]}''"
  by (simp add: New_def emptyNode_def AddListChild_def set_attrs_def set_isChild_def
      set_attr_def Let_def writeKey_def)

subsection \<open>merge, with a parent row\<close>

lemma mergeInner_eq:
  "mergeInner lim pa child cnt acc =
     (if cnt + (\<Sum>ca\<leftarrow>child. int (length pa) + int (length ca)) \<le> lim \<or> child = []
      then Inr (cnt + (\<Sum>ca\<leftarrow>child. int (length pa) + int (length ca)),
                acc @ map (\<lambda>ca. pa @ ca) child)
      else Inl tooManyResults)"
proof (induction child arbitrary: cnt acc)
  case Nil
  then show ?case by simp
next
  case (Cons ca cs)
  have nn: "0 \<le> (\<Sum>ca\<leftarrow>cs. int (length pa) + int (length ca))"
    by (rule sum_list_nonneg) auto
  show ?case
    using nn by (auto simp: Let_def Cons.IH add.assoc)
qed

lemma mergeOuter_no_child: "mergeOuter lim parent [] cnt acc = Inr acc"
  by (induction parent) simp_all

lemma mergeOuter_eq:
  "mergeOuter lim parent child cnt acc =
     (if cnt + (\<Sum>pa\<leftarrow>parent. \<Sum>ca\<leftarrow>child. int (length pa) + int (length ca)) \<le> lim
         \<or> parent = [] \<or> child = []
      then Inr (acc @ concat (map (\<lambda>pa. map (\<lambda>ca. pa @ ca) child) parent))
      else Inl tooManyResults)"
proof (induction parent arbitrary: cnt acc)
  case Nil
  then show ?case by simp
next
  case (Cons pa ps)
  have nn: "0 \<le> (\<Sum>pa\<leftarrow>ps. \<Sum>ca\<leftarrow>child. int (length pa) + int (length ca))"
    by (auto intro!: sum_list_nonneg)
  have nn2: "0 \<le> (\<Sum>ca\<leftarrow>child. int (length pa) + int (length ca))"
    by (rule sum_list_nonneg) auto
  show ?case
  proof (cases "child = []")
    case True
    then show ?thesis by (simp add: mergeOuter_no_child)
  next
    case False
    then show ?thesis
      using nn nn2 by (auto simp: mergeInner_eq Cons.IH add.assoc)
  qed
qed

lemma length_cross:
  "length (concat (map (\<lambda>pa. map (\<lambda>ca. pa @ ca) child) parent)) = length parent * length child"
  by (induction parent) simp_all

lemma merge_rows_nonempty:
  assumes "parent \<noteq> []" "child \<noteq> []" "merge lim parent child = Inr rows"
  shows "rows \<noteq> []"
proof -
  have "rows = concat (map (\<lambda>pa. map (\<lambda>ca. pa @ ca) child) parent)"
    using assms by (auto simp: merge_def mergeOuter_eq split: if_splits)
  then have "length rows = length parent * length child"
    by (simp add: length_cross)
  with assms(1,2) show ?thesis by auto
qed

text \<open>
  C3, amended. For a parent set that is not empty, \<^verbatim>\<open>merge\<close> returns every
  concatenation of a parent row and a child row, parent rows outermost, that is M times N
  rows, when the cumulative element count of all combinations is within the limit (or
  there is no child row, hence no combination), and the too-many-results error
  otherwise. The running count never decreases, so it exceeds the limit at some
  combination exactly when the total does.
\<close>

theorem merge_cross_product:
  assumes "parent \<noteq> []"
  shows "merge lim parent child =
      (if (\<Sum>pa\<leftarrow>parent. \<Sum>ca\<leftarrow>child. int (length pa) + int (length ca)) \<le> lim
          \<or> child = []
       then Inr (concat (map (\<lambda>pa. map (\<lambda>ca. pa @ ca) child) parent))
       else Inl tooManyResults)
    \<and> length (concat (map (\<lambda>pa. map (\<lambda>ca. pa @ ca) child) parent))
        = length parent * length child"
proof -
  have z: "child = [] \<Longrightarrow> (\<Sum>pa\<leftarrow>parent. \<Sum>ca\<leftarrow>child. int (length pa) + int (length ca)) = 0"
    by (induction parent) simp_all
  show ?thesis
    using assms z by (auto simp: merge_def mergeOuter_eq length_cross)
qed


theorem merge_cross_product_witness:
  "merge 4 [[New ''a'']] [[New ''b''], [New ''c'']]
     = Inr [[New ''a'', New ''b''], [New ''a'', New ''c'']]
   \<and> length [[New ''a'', New ''b''], [New ''a'', New ''c'']] = 1 * 2"
  using merge_cross_product [of "[[New ''a'']]" 4 "[[New ''b''], [New ''c'']]"] by simp

theorem merge_cross_product_counterexample:
  "merge 0 [] [[New ''a'']] = Inr [[New ''a'']]
   \<and> length [[New ''a'']] \<noteq> length ([] :: row list) * length [[New ''a'']]"
  by (simp add: merge_def)

subsection \<open>normalize and the uid fields of a row\<close>

lemma not_Less_attr: "\<not> Less b a \<Longrightarrow> attr a \<le> attr b"
  by (auto simp: Less_def strings_Compare_def Let_def split: if_splits)

lemma sorted_attr: "sorted_wrt (\<lambda>a b. \<not> Less b a) xs \<Longrightarrow> sorted (map attr xs)"
  unfolding sorted_map by (erule sorted_wrt_mono_rel [rotated]) (simp add: not_Less_attr)

lemma sorted_three_parts:
  fixes f :: "'a \<Rightarrow> 'b :: linorder"
  shows "sorted (map f xs) \<Longrightarrow>
    xs = filter (\<lambda>x. f x < k) xs @ filter (\<lambda>x. f x = k) xs @ filter (\<lambda>x. k < f x) xs"
proof (induction xs)
  case Nil
  then show ?case by simp
next
  case (Cons x xs)
  have ih: "xs = filter (\<lambda>x. f x < k) xs @ filter (\<lambda>x. f x = k) xs @ filter (\<lambda>x. k < f x) xs"
    using Cons by simp
  have ge: "\<forall>y \<in> set xs. f x \<le> f y"
    using Cons.prems by simp
  consider "f x < k" | "f x = k" | "k < f x"
    by (rule linorder_cases)
  then show ?case
  proof cases
    case 1
    with ih show ?thesis by auto
  next
    case 2
    with ge have "filter (\<lambda>x. f x < k) xs = []"
      by (auto simp: filter_empty_conv)
    with 2 ih show ?thesis by simp
  next
    case 3
    with ge have "filter (\<lambda>x. f x < k) xs = []" "filter (\<lambda>x. f x = k) xs = []"
      by (auto simp: filter_empty_conv)
    with 3 ih show ?thesis by simp
  qed
qed

lemma uidScan_no_uid:
  "\<forall>x \<in> set xs. attr x \<noteq> ''uid'' \<Longrightarrow> uidScan xs i p = p"
  by (induction xs arbitrary: i) (cases p; simp)+

lemma uidScan_append:
  "uidScan (xs @ ys) i p = uidScan ys (i + int (length xs)) (uidScan xs i p)"
proof (induction xs arbitrary: i p)
  case Nil
  then show ?case by (cases p) simp
next
  case (Cons x xs)
  obtain f l where p: "p = (f, l)" by (cases p)
  show ?case
    by (simp add: p Cons.IH algebra_simps)
qed

lemma uidScan_all_uid:
  "\<forall>x \<in> set xs. attr x = ''uid'' \<Longrightarrow> xs \<noteq> [] \<Longrightarrow> 0 \<le> i \<Longrightarrow>
   uidScan xs i (f, l) = (if f = - 1 then i else f, i + int (length xs) - 1)"
proof (induction xs arbitrary: i f l)
  case Nil
  then show ?case by simp
next
  case (Cons x xs)
  show ?case
  proof (cases "xs = []")
    case True
    with Cons.prems show ?thesis by simp
  next
    case False
    with Cons.prems Cons.IH [of "i + 1"] show ?thesis by auto
  qed
qed

lemma dedupUid_no_uid:
  "\<forall>x \<in> set xs. attr x \<noteq> ''uid'' \<Longrightarrow> dedupUid xs = xs"
  by (simp add: dedupUid_def uidScan_no_uid)

lemma dedupUid_parts:
  assumes pre: "\<forall>x \<in> set pre. attr x \<noteq> ''uid''"
    and us: "\<forall>x \<in> set us. attr x = ''uid''" "us \<noteq> []"
    and post: "\<forall>x \<in> set post. attr x \<noteq> ''uid''"
  shows "dedupUid (pre @ us @ post) = pre @ [last us] @ post"
proof -
  have scan: "uidScan (pre @ us @ post) 0 (- 1, 0)
      = (int (length pre), int (length pre) + int (length us) - 1)"
    using pre us post by (simp add: uidScan_append uidScan_no_uid uidScan_all_uid)
  have len: "1 \<le> length us"
    using us(2) by (cases us) simp_all
  have d: "drop (length us - 1) us = [last us]"
    using us(2) by (metis append_butlast_last_id append_eq_conv_conj length_butlast)
  show ?thesis
  proof (cases "length us = 1")
    case True
    then have "us = [last us]"
      by (cases us) auto
    with True show ?thesis
      by (simp add: dedupUid_def scan)
  next
    case False
    with len have two: "2 \<le> length us" by linarith
    then have n: "nat (int (length pre) + int (length us) - 1) = length pre + (length us - 1)"
      by simp
    have ne: "int (length pre) \<noteq> int (length pre) + int (length us) - 1"
      using two by simp
    have n0: "nat (int (length us) - 1) = length us - 1"
      using two by simp
    show ?thesis
      using two d by (auto simp: dedupUid_def scan n n0 simp del: append_assoc)
  qed
qed


lemma dedupUid_sorted:
  assumes "sorted_wrt (\<lambda>a b. \<not> Less b a) s"
  shows "dedupUid s = filter (\<lambda>x. attr x < ''uid'') s
      @ (if filter (\<lambda>x. attr x = ''uid'') s = [] then []
         else [last (filter (\<lambda>x. attr x = ''uid'') s)])
      @ filter (\<lambda>x. ''uid'' < attr x) s"
proof -
  let ?pre = "filter (\<lambda>x. attr x < ''uid'') s"
  let ?us = "filter (\<lambda>x. attr x = ''uid'') s"
  let ?post = "filter (\<lambda>x. ''uid'' < attr x) s"
  have parts: "s = ?pre @ ?us @ ?post"
    by (rule sorted_three_parts [OF sorted_attr [OF assms]])
  show ?thesis
  proof (cases "?us = []")
    case True
    then have "\<forall>x \<in> set s. attr x \<noteq> ''uid''"
      by (simp add: filter_empty_conv)
    then have "dedupUid s = s"
      by (rule dedupUid_no_uid)
    with True parts show ?thesis by simp
  next
    case False
    have "dedupUid (?pre @ ?us @ ?post) = ?pre @ [last ?us] @ ?post"
      by (rule dedupUid_parts) (use False in auto)
    with False parts show ?thesis by simp
  qed
qed

lemma dedupUid_sorted_one_uid:
  assumes "sorted_wrt (\<lambda>a b. \<not> Less b a) s"
  shows "length (filter (\<lambda>x. attr x = ''uid'') (dedupUid s)) \<le> 1"
proof -
  have a: "filter (\<lambda>x. attr x < ''uid'' \<and> attr x = ''uid'') s = []"
    by (auto simp: filter_empty_conv)
  have b: "filter (\<lambda>x. ''uid'' < attr x \<and> attr x = ''uid'') s = []"
    by (auto simp: filter_empty_conv)
  show ?thesis
    unfolding dedupUid_sorted [OF assms] by (simp add: a b)
qed

text \<open>
  \<^verbatim>\<open>normalize\<close> never returns an empty list of rows, so inside it \<^verbatim>\<open>merge\<close>
  is never called with an empty parent set and every merged row is a fresh slice.
\<close>

lemma normGroup_rows_nonempty:
  assumes "\<And>x r. x \<in> set xs \<Longrightarrow> norm x = Inr r \<Longrightarrow> r \<noteq> []"
  shows "normGroup norm name xs cs = Inr (cs', rest)
    \<Longrightarrow> cs \<noteq> [] \<or> (xs \<noteq> [] \<and> attr (hd xs) = name) \<Longrightarrow> cs' \<noteq> []"
  using assms
proof (induction xs arbitrary: cs)
  case Nil
  then show ?case by simp
next
  case (Cons x xs)
  show ?case
  proof (cases "name = attr x")
    case False
    with Cons.prems show ?thesis by auto
  next
    case True
    show ?thesis
    proof (cases "norm x")
      case (Inl e)
      with True Cons.prems show ?thesis by simp
    next
      case (Inr r)
      then have "r \<noteq> []"
        using Cons.prems(3) [of x r] by simp
      moreover have "normGroup norm name xs (cs @ r) = Inr (cs', rest)"
        using True Inr Cons.prems(1) by simp
      ultimately show ?thesis
        by (intro Cons.IH [of "cs @ r"]) (use Cons.prems(3) in auto)
    qed
  qed
qed

lemma normGroups_rows_nonempty:
  assumes "\<And>x r. x \<in> set xs \<Longrightarrow> norm x = Inr r \<Longrightarrow> r \<noteq> []"
  shows "normGroups norm lim xs ps = Inr ps' \<Longrightarrow> ps \<noteq> [] \<Longrightarrow> ps' \<noteq> []"
  using assms
proof (induction norm lim xs ps rule: normGroups.induct)
  case (1 norm lim parentSlice)
  then show ?case by simp
next
  case (2 norm lim childNode xs parentSlice)
  show ?case
  proof (cases "isChild childNode")
    case False
    with "2.prems"(1) have "normGroups norm lim xs parentSlice = Inr ps'"
      by simp
    then show ?thesis
      by (intro "2.IH"(1) [OF False]) (use "2.prems"(2,3) in auto)
  next
    case True
    obtain childSlice rest where
      g: "normGroup norm (attr childNode) (childNode # xs) [] = Inr (childSlice, rest)"
      using True "2.prems"(1)
      by (cases "normGroup norm (attr childNode) (childNode # xs) []") auto
    obtain parentSlice' where m: "merge lim parentSlice childSlice = Inr parentSlice'"
      using True g "2.prems"(1) by (cases "merge lim parentSlice childSlice") auto
    have cs: "childSlice \<noteq> []"
      by (rule normGroup_rows_nonempty [OF _ g]) (use "2.prems"(3) in auto)
    have p': "parentSlice' \<noteq> []"
      by (rule merge_rows_nonempty [OF "2.prems"(2) cs m])
    have run: "normGroups norm lim rest parentSlice' = Inr ps'"
      using True g m "2.prems"(1) by simp
    have sub: "set rest \<subseteq> set (childNode # xs)"
      using g normGroup_rest_subset by blast
    show ?thesis
      by (rule "2.IH"(2) [OF _ g refl m run p']) (use True sub "2.prems"(3) in auto)
  qed
qed

lemma normalize_rows_nonempty: "normalize_fj srt lim fj = Inr rows \<Longrightarrow> rows \<noteq> []"
proof (induction srt lim fj arbitrary: rows rule: normalize_fj.induct)
  case (1 srt lim a ord c sv as l)
  show ?case
  proof (cases "length (filter isChild as) = 0")
    case True
    with "1.prems" show ?thesis by auto
  next
    case False
    obtain parentSlice where
      g: "normGroups (normalize_fj srt lim) lim as [filter (\<lambda>x. \<not> isChild x) as] = Inr parentSlice"
      and rows: "rows = map (\<lambda>sl. dedupUid (srt sl)) parentSlice"
      using False "1.prems" by (auto split: sum.splits)
    have "parentSlice \<noteq> []"
      by (rule normGroups_rows_nonempty [OF _ g]) (use "1.IH" False in auto)
    with rows show ?thesis by simp
  qed
qed

text \<open>
  C1, amended. A node without structural children normalizes to the one row of its own
  fields, as they are. For a node with a structural child on which \<^verbatim>\<open>normalize\<close>
  succeeds, every returned row is a merged row, sorted and then cut: the fields sorted
  before \<^verbatim>\<open>"uid"\<close>, then the last of the fields named \<^verbatim>\<open>"uid"\<close> in the
  sorted row when there is one, then the fields sorted after. So such a row has at most
  one field named \<^verbatim>\<open>"uid"\<close>, and it is the last-positioned one of the sorted row
  that is kept.
\<close>

theorem normalize_uid_rows:
  assumes "sorts srt"
  shows "((\<forall>x \<in> set (attrs fj). \<not> isChild x) \<longrightarrow> normalize_fj srt lim fj = Inr [attrs fj])
    \<and> ((\<exists>x \<in> set (attrs fj). isChild x) \<and> normalize_fj srt lim fj = Inr rows \<longrightarrow>
        (\<exists>merged.
           normGroups (normalize_fj srt lim) lim (attrs fj) [filter (\<lambda>x. \<not> isChild x) (attrs fj)]
             = Inr merged
           \<and> rows = map (\<lambda>r. dedupUid (srt r)) merged
           \<and> (\<forall>r \<in> set merged.
                 mset (srt r) = mset r
                 \<and> dedupUid (srt r) = filter (\<lambda>x. attr x < ''uid'') (srt r)
                     @ (if filter (\<lambda>x. attr x = ''uid'') (srt r) = [] then []
                        else [last (filter (\<lambda>x. attr x = ''uid'') (srt r))])
                     @ filter (\<lambda>x. ''uid'' < attr x) (srt r)
                 \<and> length (filter (\<lambda>x. attr x = ''uid'') (dedupUid (srt r))) \<le> 1)))"
proof -
  have s: "sorted_wrt (\<lambda>a b. \<not> Less b a) (srt r)" "mset (srt r) = mset r" for r
    using assms by (simp_all add: sorts_def)
  have base: "(\<forall>x \<in> set (attrs fj). \<not> isChild x) \<longrightarrow> normalize_fj srt lim fj = Inr [attrs fj]"
    by (cases fj) (simp add: filter_empty_conv)
  have step: "\<exists>merged.
      normGroups (normalize_fj srt lim) lim (attrs fj) [filter (\<lambda>x. \<not> isChild x) (attrs fj)]
        = Inr merged
      \<and> rows = map (\<lambda>r. dedupUid (srt r)) merged"
    if "\<exists>x \<in> set (attrs fj). isChild x" "normalize_fj srt lim fj = Inr rows"
    using that by (cases fj) (auto simp: filter_empty_conv split: sum.splits if_splits)
  show ?thesis
    using base step dedupUid_sorted [OF s(1)] dedupUid_sorted_one_uid [OF s(1)] s(2)
    by blast
qed

lemma exNested_normalize: "normalize_fj exampleSort 100 exNested = Inr [[exName, exUidB]]"
  by code_simp

lemma exNested_merged:
  "normGroups (normalize_fj exampleSort 100) 100 (attrs exNested)
     [filter (\<lambda>x. \<not> isChild x) (attrs exNested)] = Inr [[exUidA, exName, exUidB]]"
  by code_simp

lemma exNested_sorted: "exampleSort [exUidA, exName, exUidB] = [exName, exUidA, exUidB]"
  by code_simp

theorem normalize_uid_rows_witness:
  "normalize_fj exampleSort 100 exNested = Inr [[exName, exUidB]]
   \<and> exampleSort [exUidA, exName, exUidB] = [exName, exUidA, exUidB]
   \<and> dedupUid [exName, exUidA, exUidB] = [exName, exUidB]
   \<and> length (filter (\<lambda>x. attr x = ''uid'') (dedupUid [exName, exUidA, exUidB])) \<le> 1"
proof -
  have ch: "\<exists>x \<in> set (attrs exNested). isChild x"
    by (simp add: exNested_def)
  obtain merged where m:
    "normGroups (normalize_fj exampleSort 100) 100 (attrs exNested)
       [filter (\<lambda>x. \<not> isChild x) (attrs exNested)] = Inr merged
     \<and> [[exName, exUidB]] = map (\<lambda>r. dedupUid (exampleSort r)) merged
     \<and> (\<forall>r \<in> set merged.
       mset (exampleSort r) = mset r
       \<and> dedupUid (exampleSort r) = filter (\<lambda>x. attr x < ''uid'') (exampleSort r)
           @ (if filter (\<lambda>x. attr x = ''uid'') (exampleSort r) = [] then []
              else [last (filter (\<lambda>x. attr x = ''uid'') (exampleSort r))])
           @ filter (\<lambda>x. ''uid'' < attr x) (exampleSort r)
       \<and> length (filter (\<lambda>x. attr x = ''uid'') (dedupUid (exampleSort r))) \<le> 1)"
    using mp [OF conjunct2 [OF normalize_uid_rows
          [OF sorts_exampleSort, of exNested 100 "[[exName, exUidB]]"]]
        conjI [OF ch exNested_normalize]] ..
  have merged: "merged = [[exUidA, exName, exUidB]]"
    using conjunct1 [OF m] exNested_merged by simp
  note row = bspec [OF conjunct2 [OF conjunct2 [OF m], unfolded merged] list.set_intros(1)]
  have "length (filter (\<lambda>x. attr x = ''uid'')
      (dedupUid (exampleSort [exUidA, exName, exUidB]))) \<le> 1"
    by (rule conjunct2 [OF conjunct2 [OF row]])
  moreover have "[[exName, exUidB]] = [dedupUid (exampleSort [exUidA, exName, exUidB])]"
    using conjunct1 [OF conjunct2 [OF m]] by (simp add: merged)
  ultimately show ?thesis
    using exNested_normalize exNested_sorted by simp
qed

theorem normalize_uid_rows_counterexample:
  "sorts exampleSort
   \<and> normalize_fj exampleSort 100 exFlat = Inr [[exUidA, exUidB]]
   \<and> length (filter (\<lambda>x. attr x = ''uid'') [exUidA, exUidB]) = 2
   \<and> exampleSort [exUidA, exName, exUidB] = [exName, exUidA, exUidB]
   \<and> normalize_fj exampleSort 100 exNested = Inr [[exName, exUidB]]
   \<and> exUidB \<noteq> exUidA"
proof -
  have "normalize_fj exampleSort 100 exFlat = Inr [[exUidA, exUidB]]"
    by code_simp
  moreover have "length (filter (\<lambda>x. attr x = ''uid'') [exUidA, exUidB]) = 2"
    by (simp add: exUidA_def exUidB_def)
  moreover have "exUidB \<noteq> exUidA"
    by (simp add: exUidA_def exUidB_def)
  ultimately show ?thesis
    using exNested_sorted exNested_normalize sorts_exampleSort by simp
qed

subsection \<open>The stack of open uids\<close>

lemma framedD:
  "framed trav \<Longrightarrow> trav p st u dst = Some (st', d, r) \<Longrightarrow> \<not> prefix p q \<Longrightarrow> st' q = st q"
  unfolding framed_def by blast

lemma edgeLoop_frame:
  assumes "framed trav"
  shows "edgeLoop ext sg pc trav p fname fcs k us (st, dst, ivs) = Some (st', dst', ivs', r)
    \<Longrightarrow> \<not> prefix p q \<Longrightarrow> st' q = st q"
proof (induction us arbitrary: k st dst ivs)
  case Nil
  then show ?case by simp
next
  case (Cons u us)
  show ?case
  proof (cases "fname = [] \<or> u \<in> ivs")
    case True
    with Cons.prems Cons.IH show ?thesis by auto
  next
    case False
    show ?thesis
    proof (cases "trav p st u (New fname)")
      case None
      with False Cons.prems show ?thesis by simp
    next
      case (Some res)
      obtain st1 uc r1 where res: "res = (st1, uc, r1)" by (cases res)
      have st1: "st1 q = st q"
        using framedD [OF assms] Some res Cons.prems(2) by blast
      show ?thesis
        using False Some res Cons.prems st1 Cons.IH
        by (auto split: option.splits if_splits prod.splits)
    qed
  qed
qed


lemma edgeBranch_loop:
  assumes "edgeBranch ext sg path i pc trav idx fname (st, dst, ivs) = Some (st', dst', ivs', r)"
  shows "\<exists>fcs d2 r2.
    edgeLoop ext sg pc trav (path @ [i]) fname fcs 0 (elems (uidMatrix pc) ! nat idx)
      (if IgnoreReflex (Params sg) then st(path @ [i] := st path) else st, dst, ivs)
      = Some (st', d2, ivs', r2)"
proof -
  obtain fcs where fcs: "(if Facet_params (Params pc) \<noteq> None then index (facetsMatrix pc) idx
      else Some []) = Some fcs"
    using assms unfolding edgeBranch_def by (cases "(if Facet_params (Params pc) \<noteq> None then index (facetsMatrix pc) idx
      else Some [])") simp_all
  let ?st1 = "if IgnoreReflex (Params sg) then st(path @ [i] := st path) else st"
  let ?loop = "edgeLoop ext sg pc trav (path @ [i]) fname fcs 0 (elems (uidMatrix pc) ! nat idx)
      (?st1, dst, ivs)"
  show ?thesis
  proof (cases ?loop)
    case None
    with assms fcs show ?thesis
      unfolding edgeBranch_def by (simp add: Let_def)
  next
    case (Some res)
    obtain st2 d2 i2 r2 where res: "res = (st2, d2, i2, r2)"
      by (cases res)
    have "st' = st2 \<and> ivs' = i2"
      using assms fcs Some res unfolding edgeBranch_def
      by (simp add: Let_def split: option.splits if_splits)
    with Some res show ?thesis by blast
  qed
qed

lemma edgeBranch_frame:
  assumes "framed trav"
    and "edgeBranch ext sg path i pc trav idx fname (st, dst, ivs) = Some (st', dst', ivs', r)"
    and "\<not> prefix (path @ [i]) q"
  shows "st' q = st q"
proof -
  have ne: "q \<noteq> path @ [i]"
    using assms(3) by auto
  obtain fcs d2 r2 where loop:
    "edgeLoop ext sg pc trav (path @ [i]) fname fcs 0 (elems (uidMatrix pc) ! nat idx)
      (if IgnoreReflex (Params sg) then st(path @ [i] := st path) else st, dst, ivs)
      = Some (st', d2, ivs', r2)"
    using edgeBranch_loop [OF assms(2)] by blast
  have "st' q = (if IgnoreReflex (Params sg) then st(path @ [i] := st path) else st) q"
    by (rule edgeLoop_frame [OF assms(1) loop assms(3)])
  with ne show ?thesis by simp
qed

lemma processChild_cases:
  assumes "processChild ext sg path u i pc trav (st, dst, ivs) = Some (st', dst', ivs', r)"
  shows "st' = st
    \<or> edgeBranch ext sg path i pc trav (algo_IndexOf ext (SrcUIDs pc) u) (fieldName pc)
         (st, dst, ivs) = Some (st', dst', ivs', r)"
  using assms unfolding processChild_def
  by (simp add: Let_def split: if_splits option.splits prod.splits)

lemma processChild_frame:
  assumes "framed trav"
    and "processChild ext sg path u i pc trav (st, dst, ivs) = Some (st', dst', ivs', r)"
    and "\<not> prefix (path @ [i]) q"
  shows "st' q = st q"
  using processChild_cases [OF assms(2)] edgeBranch_frame [OF assms(1) _ assms(3)]
  by blast

lemma snoc_prefix_strict: "prefix (path @ [i]) q \<Longrightarrow> strict_prefix path q"
  by (auto simp: prefix_def strict_prefix_def)

lemma childrenLoop_frame:
  assumes "\<forall>trav \<in> set travs. framed trav"
  shows "childrenLoop ext sg path u i pcs travs (st, dst, ivs) = Some (st', dst', r)
    \<Longrightarrow> \<not> strict_prefix path q \<Longrightarrow> st' q = st q"
  using assms
proof (induction pcs arbitrary: travs i st dst ivs)
  case Nil
  then show ?case by simp
next
  case (Cons pc pcs)
  show ?case
  proof (cases travs)
    case Nil
    with Cons.prems show ?thesis by simp
  next
    case (Cons trav travs')
    have np: "\<not> prefix (path @ [i]) q"
      using Cons.prems(2) by (auto dest: snoc_prefix_strict)
    have fr: "framed trav" "\<forall>t \<in> set travs'. framed t"
      using Cons.prems(3) Cons by simp_all
    show ?thesis
    proof (cases "processChild ext sg path u i pc trav (st, dst, ivs)")
      case None
      with Cons Cons.prems show ?thesis by simp
    next
      case (Some res)
      obtain st1 dst1 ivs1 r1 where res: "res = (st1, dst1, ivs1, r1)"
        by (cases res)
      have st1: "st1 q = st q"
        using processChild_frame [OF fr(1) _ np] Some res by blast
      show ?thesis
      proof (cases r1)
        case None
        have "childrenLoop ext sg path u (i + 1) pcs travs' (st1, dst1, ivs1) = Some (st', dst', r)"
          using Cons.prems(1) Cons Some res None by simp
        from Cons.IH [OF this Cons.prems(2) fr(2)] st1 show ?thesis by simp
      next
        case (Some err)
        with Cons Cons.prems(1) \<open>processChild ext sg path u i pc trav (st, dst, ivs) = Some res\<close>
          res st1 show ?thesis by simp
      qed
    qed
  qed
qed


lemma afterChildren_store:
  assumes "afterChildren ext sg path u st dst = Some (st', dst', r)"
  shows "r = None \<and> st' = (if IgnoreReflex (Params sg) \<and> length (st path) > 0
                            then st(path := butlast (st path)) else st)"
  using assms unfolding afterChildren_def
  by (auto simp: Let_def split: option.splits)

lemma traverseWith_store:
  assumes fr: "\<forall>trav \<in> set travs. framed trav"
    and run: "traverseWith ext sg travs path st u dst = Some (st', dst', r)"
  shows "(r = None \<longrightarrow> st' path = st path) \<and> (\<forall>q. \<not> prefix path q \<longrightarrow> st' q = st q)"
proof (cases "IgnoreReflex (Params sg) \<and> alreadySeen (st path) u")
  case True
  with run show ?thesis
    unfolding traverseWith_def by simp
next
  case False
  let ?st1 = "if IgnoreReflex (Params sg) then st(path := st path @ [u]) else st"
  obtain st2 dst2 r2 where
    loop: "childrenLoop ext sg path u 0 (Children sg) travs (?st1, dst, {}) = Some (st2, dst2, r2)"
    using run False unfolding traverseWith_def
    by (cases "childrenLoop ext sg path u 0 (Children sg) travs (?st1, dst, {})")
      (auto simp: Let_def)
  have st2: "st2 q = ?st1 q" if "\<not> strict_prefix path q" for q
    using childrenLoop_frame [OF fr loop that] .
  have own: "st2 path = ?st1 path"
    by (rule st2) simp
  have other: "st2 q = st q" if "\<not> prefix path q" for q
  proof -
    from that have "\<not> strict_prefix path q" "q \<noteq> path"
      by (auto simp: strict_prefix_def)
    with st2 [of q] show ?thesis by simp
  qed
  show ?thesis
  proof (cases r2)
    case (Some err)
    with run False loop have "st' = st2" "r = Some err"
      unfolding traverseWith_def by (simp_all add: Let_def)
    with other show ?thesis by simp
  next
    case None
    with run False loop have after: "afterChildren ext sg path u st2 dst2 = Some (st', dst', r)"
      unfolding traverseWith_def by (simp add: Let_def)
    note a = afterChildren_store [OF after]
    have "st' path = st path"
      using a own by (auto split: if_splits)
    moreover have "st' q = st q" if "\<not> prefix path q" for q
    proof -
      from that have "q \<noteq> path" by auto
      with a other [OF that] show ?thesis by (auto split: if_splits)
    qed
    ultimately show ?thesis by simp
  qed
qed

lemma preTraverse_framed: "framed (preTraverse ext sg)"
proof (induction ext sg rule: preTraverse.induct)
  case (1 ext p a ch um fm su du gr co sf vm lt li pm)
  have "\<forall>trav \<in> set (map (preTraverse ext) ch). framed trav"
    using 1 by auto
  from traverseWith_store [OF this] show ?case
    unfolding framed_def by (simp; blast)
qed

text \<open>The cycle guard: a uid that is on the stack ends the call at once, with nothing
  pushed and nothing written.\<close>

lemma cycle_guard:
  "IgnoreReflex (Params sg) \<Longrightarrow> u \<in> set (st path)
   \<Longrightarrow> preTraverse ext sg path st u dst = Some (st, dst, None)"
proof -
  have "alreadySeen xs u \<longleftrightarrow> u \<in> set xs" for xs
    by (induction xs) auto
  then show "IgnoreReflex (Params sg) \<Longrightarrow> u \<in> set (st path)
   \<Longrightarrow> preTraverse ext sg path st u dst = Some (st, dst, None)"
    by (cases sg) (simp add: traverseWith_def)
qed

lemma childrenLoop_own:
  assumes "\<forall>trav \<in> set travs. framed trav"
    and "childrenLoop ext sg path u i pcs travs (st, dst, ivs) = Some (st', dst', r)"
  shows "st' path = st path"
  by (rule childrenLoop_frame [OF assms]) simp

text \<open>
  C2, amended. For a call of \<^verbatim>\<open>preTraverse\<close> on a subgraph whose
  \<^verbatim>\<open>IgnoreReflex\<close> flag is set: when the uid is on the stack already, the call
  returns at once and changes nothing. Otherwise the uid is pushed before the children
  are visited: the loop over the children runs from the store in which the stack of
  the subgraph is the old stack with the uid appended, it leaves that stack as it is,
  and every descent into a child predicate's uids starts by handing the child a copy of
  the parent's stack. When the loop ends without error, the uid is popped, so the stack
  after the call is the stack before it; when the loop returns an error, the call
  returns with the store as the loop left it, the pop not reached. In every case the
  stacks of the subgraphs outside the subtree of the call are unchanged.
\<close>

theorem preTraverse_parentIds:
  assumes "IgnoreReflex (Params sg)"
  shows "(alreadySeen (st path) u \<longrightarrow> preTraverse ext sg path st u dst = Some (st, dst, None))
    \<and> (\<not> alreadySeen (st path) u \<and> preTraverse ext sg path st u dst = Some (st', dst', r) \<longrightarrow>
         (\<exists>st2 dst2 r2.
            childrenLoop ext sg path u 0 (Children sg) (map (preTraverse ext) (Children sg))
              (st(path := st path @ [u]), dst, {}) = Some (st2, dst2, r2)
            \<and> st2 path = st path @ [u]
            \<and> (r2 = None \<longrightarrow>
                  r = None \<and> st' = st2(path := st path)
                  \<and> afterChildren ext sg path u st2 dst2 = Some (st', dst', None))
            \<and> (r2 \<noteq> None \<longrightarrow> r = r2 \<and> st' = st2 \<and> dst' = dst2))
         \<and> (r = None \<longrightarrow> st' path = st path)
         \<and> (\<forall>q. \<not> prefix path q \<longrightarrow> st' q = st q))
    \<and> (edgeBranch ext sg path i pc trav idx fname (s, d0, ivs) = Some (s', d', ivs', r') \<longrightarrow>
         (\<exists>fcs d2 r2.
            edgeLoop ext sg pc trav (path @ [i]) fname fcs 0 (elems (uidMatrix pc) ! nat idx)
              (s(path @ [i] := s path), d0, ivs) = Some (s', d2, ivs', r2)))"
proof -
  let ?travs = "map (preTraverse ext) (Children sg)"
  have fr: "\<forall>trav \<in> set ?travs. framed trav"
    by (simp add: preTraverse_framed)
  have unfold: "preTraverse ext sg path st u dst = traverseWith ext sg ?travs path st u dst"
    by (cases sg) simp
  have seen: "alreadySeen (st path) u \<Longrightarrow> preTraverse ext sg path st u dst = Some (st, dst, None)"
    using assms by (simp add: unfold traverseWith_def)
  have fresh: "(\<exists>st2 dst2 r2.
            childrenLoop ext sg path u 0 (Children sg) ?travs
              (st(path := st path @ [u]), dst, {}) = Some (st2, dst2, r2)
            \<and> st2 path = st path @ [u]
            \<and> (r2 = None \<longrightarrow>
                  r = None \<and> st' = st2(path := st path)
                  \<and> afterChildren ext sg path u st2 dst2 = Some (st', dst', None))
            \<and> (r2 \<noteq> None \<longrightarrow> r = r2 \<and> st' = st2 \<and> dst' = dst2))
         \<and> (r = None \<longrightarrow> st' path = st path)
         \<and> (\<forall>q. \<not> prefix path q \<longrightarrow> st' q = st q)"
    if ns: "\<not> alreadySeen (st path) u"
      and run: "preTraverse ext sg path st u dst = Some (st', dst', r)"
  proof -
    have tw: "traverseWith ext sg ?travs path st u dst = Some (st', dst', r)"
      using run unfold by simp
    obtain st2 dst2 r2 where loop:
      "childrenLoop ext sg path u 0 (Children sg) ?travs (st(path := st path @ [u]), dst, {})
        = Some (st2, dst2, r2)"
      using tw ns assms unfolding traverseWith_def
      by (cases "childrenLoop ext sg path u 0 (Children sg) ?travs
            (st(path := st path @ [u]), dst, {})") (auto simp: Let_def)
    have own: "st2 path = st path @ [u]"
      using childrenLoop_own [OF fr loop] by simp
    have err: "r = r2 \<and> st' = st2 \<and> dst' = dst2" if "r2 \<noteq> None"
      using tw ns assms loop that unfolding traverseWith_def by (auto simp: Let_def)
    have ok: "r = None \<and> st' = st2(path := st path)
        \<and> afterChildren ext sg path u st2 dst2 = Some (st', dst', None)" if "r2 = None"
    proof -
      have after: "afterChildren ext sg path u st2 dst2 = Some (st', dst', r)"
        using tw ns assms loop that unfolding traverseWith_def by (simp add: Let_def)
      from afterChildren_store [OF after] own assms after show ?thesis
        by simp
    qed
    from traverseWith_store [OF fr tw] loop own err ok show ?thesis
      by blast
  qed
  have edge: "\<exists>fcs d2 r2.
      edgeLoop ext sg pc trav (path @ [i]) fname fcs 0 (elems (uidMatrix pc) ! nat idx)
        (s(path @ [i] := s path), d0, ivs) = Some (s', d2, ivs', r2)"
    if "edgeBranch ext sg path i pc trav idx fname (s, d0, ivs) = Some (s', d', ivs', r')"
    using edgeBranch_loop [OF that] assms by simp
  from seen fresh edge show ?thesis by blast
qed



theorem preTraverse_parentIds_witness:
  "map_option (\<lambda>(st', dst', r). (st' [0], st' [1], dst', r))
     (preTraverse exampleExtern exPeople [0] (\<lambda>_. []) 1 (New ''people''))
   = Some ([], [],
       FastJsonNode ''people'' 0 False []
         [FastJsonNode ''name'' 0 False ''\"Alice\"'' [] False,
          FastJsonNode ''friend'' 0 True []
            [FastJsonNode ''name'' 0 False ''\"Bob\"'' [] False] False] False,
       None)"
proof -
  have ev: "map_option (\<lambda>(st', dst', r). (dst', r))
      (preTraverse exampleExtern exPeople [0] (\<lambda>_. []) 1 (New ''people''))
    = Some (FastJsonNode ''people'' 0 False []
         [FastJsonNode ''name'' 0 False ''\"Alice\"'' [] False,
          FastJsonNode ''friend'' 0 True []
            [FastJsonNode ''name'' 0 False ''\"Bob\"'' [] False] False] False,
       None)"
    by code_simp
  then obtain st' dst' where
    run: "preTraverse exampleExtern exPeople [0] (\<lambda>_. []) 1 (New ''people'')
      = Some (st', dst', None)"
    by auto
  have flag: "IgnoreReflex (Params exPeople)"
    by (simp add: exPeople_def zeroParams_def)
  have fresh: "\<not> alreadySeen ((\<lambda>_. []) [0]) (1 :: uid)"
    by simp
  note t = preTraverse_parentIds [OF flag, where st = "\<lambda>_. []" and path = "[0]" and u = 1
      and ext = exampleExtern and dst = "New ''people''" and st' = st' and dst' = dst'
      and r = None]
  have "st' [0] = []" "st' [1] = []"
    using t fresh run by simp_all
  with run ev show ?thesis by simp
qed

theorem preTraverse_parentIds_counterexample:
  "IgnoreReflex (Params exBroken)
   \<and> map_option (\<lambda>(st', dst', r). (st' [0], dst', r))
       (preTraverse exampleExtern exBroken [0] (\<lambda>_. []) 1 (New ''people''))
     = Some ([1], New ''people'',
         Some (Error ''Length of facetsMatrix and uidMatrix mismatch: 1 vs 2''))"
proof -
  have "IgnoreReflex (Params exBroken)"
    by (simp add: exBroken_def zeroParams_def)
  moreover have "map_option (\<lambda>(st', dst', r). (st' [0], dst', r))
       (preTraverse exampleExtern exBroken [0] (\<lambda>_. []) 1 (New ''people''))
     = Some ([1], New ''people'',
         Some (Error ''Length of facetsMatrix and uidMatrix mismatch: 1 vs 2''))"
    by code_simp
  ultimately show ?thesis by simp
qed

subsection \<open>The empty key of a root without results\<close>

lemma uidLoop_no_child:
  "uidLoop ext sg path us (st, fj, h) = Some (st', fj', False, r) \<Longrightarrow> fj' = fj \<and> \<not> h"
proof (induction us arbitrary: st fj h)
  case Nil
  then show ?case by simp
next
  case (Cons u us)
  show ?case
  proof (cases "algo_IndexOf ext (DestUIDs sg) u < 0")
    case True
    with Cons.prems have "uidLoop ext sg path us (st, fj, h) = Some (st', fj', False, r)"
      by simp
    then show ?thesis by (rule Cons.IH)
  next
    case False
    show ?thesis
    proof (cases "preTraverse ext sg path st u (New (Alias (Params sg)))")
      case None
      with False Cons.prems show ?thesis by simp
    next
      case (Some res)
      obtain st1 n1 r1 where res: "res = (st1, n1, r1)" by (cases res)
      show ?thesis
        using False Some res Cons.prems Cons.IH
        by (auto split: option.splits if_splits sum.splits)
    qed
  qed
qed

lemma uidLoop_all_filtered:
  "\<forall>u \<in> set us. algo_IndexOf ext (DestUIDs sg) u < 0
   \<Longrightarrow> uidLoop ext sg path us (st, fj, h) = Some (st, fj, h, None)"
  by (induction us) simp_all

lemma encodeLoop_starts_with_key:
  assumes "\<And>x p o'. enc x (p @ o') = p @ enc x o'"
  shows "\<exists>t. encodeLoop enc cur rest 1 inArray [] = CHR 0x22 # t"
proof (cases rest)
  case Nil
  have "enc cur (writeKey cur @ o') = writeKey cur @ enc cur o'" for o'
    by (rule assms)
  then show ?thesis
    using Nil by (simp add: Let_def writeKey_def)
next
  case (Cons nxt rest')
  have e: "enc cur (writeKey cur @ o') = writeKey cur @ enc cur o'" for o'
    by (rule assms)
  have l: "encodeLoop enc nxt rest' c i (writeKey cur @ o') = writeKey cur @ encodeLoop enc nxt rest' c i o'"
    for c i o'
    by (rule encodeLoop_prefix) (rule assms)
  have l': "encodeLoop enc nxt rest' c i (enc cur (writeKey cur @ o') @ o'')
      = writeKey cur @ encodeLoop enc nxt rest' c i (enc cur o' @ o'')" for c i o' o''
    using l [of c i "enc cur o' @ o''"] e by simp
  show ?thesis
    using Cons l' [of _ _ "[]"] l' [of _ _ "''[''"]
    by (auto simp: Let_def writeKey_def)
qed

lemma rootBytes_empty_object: "rootBytes n = ''{}'' \<longleftrightarrow> attrs n = []"
proof (cases n)
  case (FastJsonNode a ord c sv as l)
  show ?thesis
  proof (cases as)
    case Nil
    with FastJsonNode show ?thesis by (simp add: rootBytes_def)
  next
    case (Cons cur rest)
    obtain t where t: "encodeLoop encode cur rest 1 False [] = CHR 0x22 # t"
      using encodeLoop_starts_with_key [of encode cur rest False] encode_prefix by blast
    have "encodeLoop encode cur rest 1 False (''{'' @ []) = ''{'' @ encodeLoop encode cur rest 1 False []"
      by (rule encodeLoop_prefix) (rule encode_prefix)
    with t FastJsonNode Cons show ?thesis
      by (simp add: rootBytes_def)
  qed
qed

lemma uidLoop_barren:
  "barren ext sg path us st \<Longrightarrow> \<exists>st'. uidLoop ext sg path us (st, fj, h) = Some (st', fj, h, None)"
proof (induction us arbitrary: st)
  case Nil
  then show ?case by simp
next
  case (Cons u us)
  show ?case
  proof (cases "algo_IndexOf ext (DestUIDs sg) u < 0")
    case True
    with Cons show ?thesis by simp
  next
    case False
    show ?thesis
    proof (cases "preTraverse ext sg path st u (New (Alias (Params sg)))")
      case None
      with False Cons.prems show ?thesis by simp
    next
      case (Some res)
      obtain st1 n1 r1 where res: "res = (st1, n1, r1)" by (cases res)
      have b: "barren ext sg path us st1"
        using False Some res Cons.prems by (auto split: option.splits)
      obtain st' where "uidLoop ext sg path us (st1, fj, h) = Some (st', fj, h, None)"
        using Cons.IH [OF b] by blast
      then show ?thesis
        using False Some res Cons.prems by (auto split: option.splits)
    qed
  qed
qed

lemma barren_all_stores:
  assumes "\<forall>u \<in> set us. algo_IndexOf ext (DestUIDs sg) u < 0
      \<or> (\<forall>st. \<exists>st' n1 r. preTraverse ext sg path st u (New (Alias (Params sg))) = Some (st', n1, r)
            \<and> (r = None \<and> IsEmpty n1 \<or> (\<exists>err. r = Some err \<and> msg err = ''_INV_'')))"
  shows "barren ext sg path us st"
proof -
  have "\<forall>st. barren ext sg path us st"
    using assms
  proof (induction us)
    case Nil
    then show ?case by simp
  next
    case (Cons u us)
    have rest: "barren ext sg path us st1" for st1
      using Cons by simp
    show ?case
    proof
      fix st
      show "barren ext sg path (u # us) st"
      proof (cases "algo_IndexOf ext (DestUIDs sg) u < 0")
        case True
        with rest show ?thesis by simp
      next
        case False
        with Cons.prems obtain st' n1 r where
          "preTraverse ext sg path st u (New (Alias (Params sg))) = Some (st', n1, r)"
          "r = None \<and> IsEmpty n1 \<or> (\<exists>err. r = Some err \<and> msg err = ''_INV_'')"
          by (metis list.set_intros(1))
        with False rest show ?thesis by auto
      qed
    qed
  qed
  then show ?thesis by simp
qed

text \<open>
  C10, amended. For a root subgraph that is not an empty block: when its uid matrix is
  \<^verbatim>\<open>nil\<close>, \<^verbatim>\<open>processNodeUids\<close> attaches exactly one empty child under the
  root's alias and nothing else. The same holds when the subgraph is no group-by query,
  renders no count at the root, and no uid of its first row yields a result: each is
  filtered out, or pruned with \<^verbatim>\<open>_INV_\<close>, or leaves its node empty, be it in the
  store the loop has reached (\<open>barren\<close>) or in every store, or simply all are filtered
  out. On a fresh root the empty child encodes as the alias with an empty array. The
  bytes of the root are the empty object only when the root has no children.
\<close>

theorem processNodeUids_empty_key:
  assumes "\<not> Params_IsEmpty (Params sg)"
  shows "(uidMatrix sg = None \<longrightarrow>
            processNodeUids ext fj sg path st
              = Some (st, AddListChild fj (Alias (Params sg)) emptyNode, None))
    \<and> (\<not> isGroupBy (Params sg) \<and> \<not> countsAtRoot sg \<and> uidMatrix sg = Some (uids # rest)
          \<and> barren ext sg path uids st \<longrightarrow>
            (\<exists>st'. processNodeUids ext fj sg path st
              = Some (st', AddListChild fj (Alias (Params sg)) emptyNode, None)))
    \<and> (\<not> isGroupBy (Params sg) \<and> \<not> countsAtRoot sg \<and> uidMatrix sg = Some (uids # rest)
          \<and> (\<forall>u \<in> set uids. algo_IndexOf ext (DestUIDs sg) u < 0
                \<or> (\<forall>st0. \<exists>st1 n1 r.
                      preTraverse ext sg path st0 u (New (Alias (Params sg))) = Some (st1, n1, r)
                      \<and> (r = None \<and> IsEmpty n1
                          \<or> (\<exists>err. r = Some err \<and> msg err = ''_INV_'')))) \<longrightarrow>
            (\<exists>st'. processNodeUids ext fj sg path st
              = Some (st', AddListChild fj (Alias (Params sg)) emptyNode, None)))
    \<and> (\<not> isGroupBy (Params sg) \<and> \<not> countsAtRoot sg \<and> uidMatrix sg = Some (uids # rest)
          \<and> (\<forall>u \<in> set uids. algo_IndexOf ext (DestUIDs sg) u < 0) \<longrightarrow>
            processNodeUids ext fj sg path st
              = Some (st, AddListChild fj (Alias (Params sg)) emptyNode, None))
    \<and> rootBytes (AddListChild (New ''_root_'') (Alias (Params sg)) emptyNode)
        = ''{'' @ quoted (Alias (Params sg)) @ '':[]}''
    \<and> (rootBytes n = ''{}'' \<longleftrightarrow> attrs n = [])"
proof -
  have a: "uidMatrix sg = None \<Longrightarrow> processNodeUids ext fj sg path st
      = Some (st, AddListChild fj (Alias (Params sg)) emptyNode, None)"
    using assms by (simp add: processNodeUids_def)
  have b: "\<exists>st'. processNodeUids ext fj sg path st
      = Some (st', AddListChild fj (Alias (Params sg)) emptyNode, None)"
    if p: "\<not> isGroupBy (Params sg)" "\<not> countsAtRoot sg" "uidMatrix sg = Some (uids # rest)"
      "barren ext sg path uids st"
  proof -
    obtain st' where "uidLoop ext sg path uids (st, fj, False) = Some (st', fj, False, None)"
      using uidLoop_barren [OF p(4)] by blast
    with p assms show ?thesis
      by (simp add: processNodeUids_def)
  qed
  have b': "\<exists>st'. processNodeUids ext fj sg path st
      = Some (st', AddListChild fj (Alias (Params sg)) emptyNode, None)"
    if "\<not> isGroupBy (Params sg)" "\<not> countsAtRoot sg" "uidMatrix sg = Some (uids # rest)"
      "\<forall>u \<in> set uids. algo_IndexOf ext (DestUIDs sg) u < 0
          \<or> (\<forall>st0. \<exists>st1 n1 r.
                preTraverse ext sg path st0 u (New (Alias (Params sg))) = Some (st1, n1, r)
                \<and> (r = None \<and> IsEmpty n1 \<or> (\<exists>err. r = Some err \<and> msg err = ''_INV_'')))"
    by (rule b [OF that(1,2,3) barren_all_stores [OF that(4)]])
  have c: "processNodeUids ext fj sg path st
      = Some (st, AddListChild fj (Alias (Params sg)) emptyNode, None)"
    if "\<not> isGroupBy (Params sg)" "\<not> countsAtRoot sg" "uidMatrix sg = Some (uids # rest)"
      "\<forall>u \<in> set uids. algo_IndexOf ext (DestUIDs sg) u < 0"
    using that assms uidLoop_all_filtered [OF that(4), of path st fj False]
    by (simp add: processNodeUids_def)
  have d: "rootBytes (AddListChild (New ''_root_'') (Alias (Params sg)) emptyNode)
        = ''{'' @ quoted (Alias (Params sg)) @ '':[]}''"
    by (simp add: rootBytes_def AddListChild_def New_def emptyNode_def set_attrs_def
        set_isChild_def set_attr_def Let_def writeKey_def quoted_def)
  show ?thesis
    using a b b' c d rootBytes_empty_object by blast
qed

theorem processNodeUids_empty_key_witness:
  "map_option (\<lambda>(st', fj', r). (fj', r))
     (processNodeUids exampleExtern (New ''_root_'') exBarren [0] (\<lambda>_. []))
     = Some (AddListChild (New ''_root_'') ''q'' emptyNode, None)
   \<and> rootBytes (AddListChild (New ''_root_'') ''q'' emptyNode) = ''{\"q\":[]}''
   \<and> map_option snd (ToJson exampleExtern [exBarren] (\<lambda>_. [])) = Some (Inr ''{\"q\":[]}'')"
proof -
  have pre: "\<not> Params_IsEmpty (Params exBarren)" "\<not> isGroupBy (Params exBarren)"
    "\<not> countsAtRoot exBarren"
    by (simp_all add: exBarren_def zeroParams_def countsAtRoot_def)
  have m: "uidMatrix exBarren = Some ([5, 6] # [])"
    by (simp add: exBarren_def)
  have hit: "\<not> algo_IndexOf exampleExtern (DestUIDs exBarren) 5 < 0"
    by (simp add: exBarren_def exampleExtern_def)
  have bar: "barren exampleExtern exBarren [0] [5, 6] (\<lambda>_. [])"
    by code_simp
  have al: "Alias (Params exBarren) = ''q''"
    by (simp add: exBarren_def zeroParams_def)
  note t = processNodeUids_empty_key [OF pre(1), where uids = "[5, 6]" and rest = "[]"
      and ext = exampleExtern and fj = "New ''_root_''" and path = "[0]" and st = "\<lambda>_. []"]
  have "\<exists>st'. processNodeUids exampleExtern (New ''_root_'') exBarren [0] (\<lambda>_. [])
      = Some (st', AddListChild (New ''_root_'') ''q'' emptyNode, None)"
    using t m bar al pre by simp
  then have "map_option (\<lambda>(st', fj', r). (fj', r))
     (processNodeUids exampleExtern (New ''_root_'') exBarren [0] (\<lambda>_. []))
     = Some (AddListChild (New ''_root_'') ''q'' emptyNode, None)"
    by auto
  moreover have "rootBytes (AddListChild (New ''_root_'') ''q'' emptyNode) = ''{\"q\":[]}''"
    using t al by (simp add: quoted_def)
  moreover have "map_option snd (ToJson exampleExtern [exBarren] (\<lambda>_. []))
      = Some (Inr ''{\"q\":[]}'')"
    by code_simp
  ultimately show ?thesis by simp
qed

theorem processNodeUids_empty_key_counterexample:
  "\<not> Params_IsEmpty (Params exCounted) \<and> \<not> isGroupBy (Params exCounted)
   \<and> uidMatrix exCounted = Some [[5]]
   \<and> algo_IndexOf exampleExtern (DestUIDs exCounted) 5 < 0
   \<and> map_option (\<lambda>(st', fj', r). (fj', r))
       (processNodeUids exampleExtern (New ''_root_'') exCounted [0] (\<lambda>_. []))
     = Some (FastJsonNode ''_root_'' 0 False []
               [FastJsonNode ''q'' 0 True []
                  [FastJsonNode ''count'' 0 False ''0'' [] False] False] False, None)
   \<and> map_option snd (ToJson exampleExtern [exCounted] (\<lambda>_. []))
     = Some (Inr ''{\"q\":[{\"count\":0}]}'')"
proof -
  have "\<not> Params_IsEmpty (Params exCounted)" "\<not> isGroupBy (Params exCounted)"
    "uidMatrix exCounted = Some [[5]]"
    "algo_IndexOf exampleExtern (DestUIDs exCounted) 5 < 0"
    by (simp_all add: exCounted_def zeroParams_def exampleExtern_def)
  moreover have "map_option (\<lambda>(st', fj', r). (fj', r))
       (processNodeUids exampleExtern (New ''_root_'') exCounted [0] (\<lambda>_. []))
     = Some (FastJsonNode ''_root_'' 0 False []
               [FastJsonNode ''q'' 0 True []
                  [FastJsonNode ''count'' 0 False ''0'' [] False] False] False, None)"
    by code_simp
  moreover have "map_option snd (ToJson exampleExtern [exCounted] (\<lambda>_. []))
     = Some (Inr ''{\"q\":[{\"count\":0}]}'')"
    by code_simp
  ultimately show ?thesis by simp
qed

subsection \<open>merge\<close>

text \<open>
  C9. With an empty parent set \<^verbatim>\<open>merge\<close> returns the child set unchanged, whatever
  the limit: the result has as many rows as the child set, and no element count is
  compared with the limit, so no error is returned even when the child set alone holds
  more elements than the limit allows.
\<close>

theorem merge_empty_parent:
  "merge lim [] child = Inr child"
  by (simp add: merge_def)

theorem merge_empty_parent_witness:
  "merge 0 [] [[New ''a'', New ''b''], [New ''c'']] = Inr [[New ''a'', New ''b''], [New ''c'']]"
  using merge_empty_parent [of 0 "[[New ''a'', New ''b''], [New ''c'']]"] by simp

end
